theory Spec2Isabelle
  imports Complex_Main "HOL-Library.Multiset"
begin

section \<open>Early stopping in the training loop (node/train.py, \<^verbatim>\<open>train\<close>)\<close>

text \<open>
  The epoch loop of \<^verbatim>\<open>train\<close> keeps three variables for early stopping:
  \<^verbatim>\<open>cnt_wait\<close>, \<^verbatim>\<open>best\<close> and \<^verbatim>\<open>best_t\<close>. Everything else an epoch does (sampling,
  the forward and backward pass, the optimiser step) only determines the loss value of
  that epoch, so the run is modelled over the sequence of loss values, one per epoch.
  Floating-point losses are idealised as real numbers.
\<close>

record loop_state =
  cnt_wait :: nat
  best :: real
  best_t :: nat

datatype stop = EarlyStop nat | EpochLimit

text \<open>
  \<^verbatim>\<open>
  if loss < best:
      best = loss; best_t = epoch; cnt_wait = 0
      torch.save(model.state_dict(), 'model.pkl')
  else:
      cnt_wait += 1
  \<close>
\<close>

definition check_improve :: "real \<Rightarrow> nat \<Rightarrow> loop_state \<Rightarrow> loop_state" where
  "check_improve loss epoch s =
     (if loss < best s then s\<lparr>best := loss, best_t := epoch, cnt_wait := 0\<rparr>
      else s\<lparr>cnt_wait := cnt_wait s + 1\<rparr>)"

text \<open>
  \<^verbatim>\<open>for epoch in range(nb_epochs): ...; if cnt_wait == patience: break\<close>.
  The result says how the loop ended (the epoch of the \<^verbatim>\<open>break\<close>, or the exhausted
  range) and the final values of the three variables.
\<close>

function train_loop ::
  "nat \<Rightarrow> nat \<Rightarrow> (nat \<Rightarrow> real) \<Rightarrow> nat \<Rightarrow> loop_state \<Rightarrow> stop \<times> loop_state" where
  "train_loop nb_epochs patience loss epoch s =
     (if epoch < nb_epochs then
        (let s' = check_improve (loss epoch) epoch s
         in if cnt_wait s' = patience then (EarlyStop epoch, s')
            else train_loop nb_epochs patience loss (Suc epoch) s')
      else (EpochLimit, s))"
  by pat_completeness auto
termination
  by (relation "measure (\<lambda>(nb_epochs, patience, loss, epoch, s). nb_epochs - epoch)") auto

declare train_loop.simps [simp del]

text \<open>The constants and initial values \<^verbatim>\<open>train\<close> sets before the loop.\<close>

definition nb_epochs :: nat where "nb_epochs = 3000"
definition patience :: nat where "patience = 20"

definition init_state :: loop_state where
  "init_state = \<lparr>cnt_wait = 0, best = 1000000000, best_t = 0\<rparr>"

definition train_epochs :: "(nat \<Rightarrow> real) \<Rightarrow> stop \<times> loop_state" where
  "train_epochs loss = train_loop nb_epochs patience loss 0 init_state"

text \<open>
  The state with which the loop enters epoch \<open>t\<close>, when it does: \<open>None\<close> when the range
  was exhausted or a \<^verbatim>\<open>break\<close> happened before.
\<close>

fun entering :: "nat \<Rightarrow> nat \<Rightarrow> (nat \<Rightarrow> real) \<Rightarrow> loop_state \<Rightarrow> nat \<Rightarrow> loop_state option" where
  "entering nb pat loss s0 0 = (if 0 < nb then Some s0 else None)"
| "entering nb pat loss s0 (Suc t) =
     (case entering nb pat loss s0 t of
        None \<Rightarrow> None
      | Some s \<Rightarrow>
          (let s' = check_improve (loss t) t s
           in if cnt_wait s' = pat \<or> \<not> Suc t < nb then None else Some s'))"

section \<open>Tensors\<close>

text \<open>
  A tensor is a nested list of reals, outermost axis first; floating-point numbers are
  idealised as reals. A \<^verbatim>\<open>torch\<close> tensor is rectangular by construction, which the
  theorems state as a hypothesis on the nested lists. Where \<^verbatim>\<open>torch\<close> raises, the model
  returns an error; where the floating-point result would be \<^verbatim>\<open>inf\<close> or \<^verbatim>\<open>nan\<close>
  through a division by zero, which the reals do not have, it returns \<open>NonFinite\<close>.
\<close>

datatype error = ShapeError | IndexError | NonFinite

type_synonym vec = "real list"
type_synonym mat = "real list list"
type_synonym tensor3 = "real list list list"

definition is_mat :: "nat \<Rightarrow> nat \<Rightarrow> mat \<Rightarrow> bool" where
  "is_mat n m A \<longleftrightarrow> length A = n \<and> list_all (\<lambda>r. length r = m) A"

definition is_tensor3 :: "nat \<Rightarrow> nat \<Rightarrow> nat \<Rightarrow> tensor3 \<Rightarrow> bool" where
  "is_tensor3 b n f T \<longleftrightarrow> length T = b \<and> list_all (is_mat n f) T"

text \<open>The sizes of the axes, read off the first element of each axis.\<close>

definition dim0 :: "'a list \<Rightarrow> nat" where
  "dim0 T = length T"

definition dim1 :: "'a list list \<Rightarrow> nat" where
  "dim1 T = (case T of [] \<Rightarrow> 0 | A # _ \<Rightarrow> length A)"

definition dim2 :: "'a list list list \<Rightarrow> nat" where
  "dim2 T = (case T of [] \<Rightarrow> 0 | A # _ \<Rightarrow> dim1 A)"

text \<open>
  Broadcasting of an element-wise operation along one axis: equal sizes pair up, an
  axis of size 1 is repeated. \<open>bc_ok\<close> is the check \<^verbatim>\<open>torch\<close> makes on the sizes.
\<close>

definition bc_ok :: "nat \<Rightarrow> nat \<Rightarrow> bool" where
  "bc_ok a b \<longleftrightarrow> a = b \<or> a = 1 \<or> b = 1"

definition bmap2 :: "('a \<Rightarrow> 'b \<Rightarrow> 'c) \<Rightarrow> 'a list \<Rightarrow> 'b list \<Rightarrow> 'c list" where
  "bmap2 f xs ys =
     (if length xs = length ys then map2 f xs ys
      else if length xs = 1 then map (f (hd xs)) ys
      else map (\<lambda>x. f x (hd ys)) xs)"

definition pointwise3 :: "(real \<Rightarrow> real \<Rightarrow> real) \<Rightarrow> tensor3 \<Rightarrow> tensor3 \<Rightarrow> error + tensor3" where
  "pointwise3 f x y =
     (if bc_ok (dim0 x) (dim0 y) \<and> bc_ok (dim1 x) (dim1 y) \<and> bc_ok (dim2 x) (dim2 y)
      then Inr (bmap2 (bmap2 (bmap2 f)) x y)
      else Inl ShapeError)"

definition mul3 :: "tensor3 \<Rightarrow> tensor3 \<Rightarrow> error + tensor3" where
  "mul3 x y = pointwise3 (*) x y"

definition add3 :: "tensor3 \<Rightarrow> tensor3 \<Rightarrow> error + tensor3" where
  "add3 x y = pointwise3 (+) x y"

text \<open>Sequencing of steps that may fail: the first error ends the computation.\<close>

definition and_then :: "error + 'a \<Rightarrow> ('a \<Rightarrow> error + 'b) \<Rightarrow> error + 'b" where
  "and_then r f = (case r of Inl e \<Rightarrow> Inl e | Inr v \<Rightarrow> f v)"

definition unsqueeze_last :: "mat \<Rightarrow> tensor3" where
  "unsqueeze_last m = map (map (\<lambda>v. [v])) m"

definition dot :: "vec \<Rightarrow> vec \<Rightarrow> real" where
  "dot x y = sum_list (map2 (*) x y)"

text \<open>\<^verbatim>\<open>torch.sum(x, 1)\<close> and \<^verbatim>\<open>torch.mean(x, 1)\<close> of a batch \<times> nodes \<times> features tensor.\<close>

definition col_sums :: "nat \<Rightarrow> mat \<Rightarrow> vec" where
  "col_sums f A = map (\<lambda>j. sum_list (map (\<lambda>r. r ! j) A)) [0..<f]"

definition sum_dim1 :: "tensor3 \<Rightarrow> mat" where
  "sum_dim1 x = map (col_sums (dim2 x)) x"

definition mean_dim1 :: "tensor3 \<Rightarrow> error + mat" where
  "mean_dim1 x =
     (if x = [] then Inr []
      else if dim1 x = 0 then Inl NonFinite
      else Inr (map (map (\<lambda>v. v / real (dim1 x))) (sum_dim1 x)))"

text \<open>\<^verbatim>\<open>torch.sum(msk)\<close>: the sum of all entries, one scalar.\<close>

definition sum_all :: "mat \<Rightarrow> real" where
  "sum_all m = sum_list (map sum_list m)"

section \<open>Readout\<close>

text \<open>
  \<^verbatim>\<open>
  def forward(self, seq, msk):
      if msk is None:
          return torch.mean(seq, 1)
      else:
          msk = torch.unsqueeze(msk, -1)
          return torch.mean(seq * msk, 1) / torch.sum(msk)
  \<close>
\<close>

definition Readout_forward :: "tensor3 \<Rightarrow> mat option \<Rightarrow> error + mat" where
  "Readout_forward seq msk =
     (case msk of
        None \<Rightarrow> mean_dim1 seq
      | Some m \<Rightarrow>
          (case mul3 seq (unsqueeze_last m) of
             Inl e \<Rightarrow> Inl e
           | Inr p \<Rightarrow>
               (case mean_dim1 p of
                  Inl e \<Rightarrow> Inl e
                | Inr q \<Rightarrow>
                    if sum_all m = 0 then Inl NonFinite
                    else Inr (map (map (\<lambda>v. v / sum_all m)) q))))"

text \<open>
  What the specification describes for the masked case: the masked features summed over
  the node axis, divided by the sum of the whole mask.
\<close>

definition masked_sum_readout :: "tensor3 \<Rightarrow> mat \<Rightarrow> error + mat" where
  "masked_sum_readout seq m =
     (case mul3 seq (unsqueeze_last m) of
        Inl e \<Rightarrow> Inl e
      | Inr p \<Rightarrow>
          if sum_all m = 0 then Inl NonFinite
          else Inr (map (map (\<lambda>v. v / sum_all m)) (sum_dim1 p)))"

section \<open>Feature encoder (GCN)\<close>

text \<open>
  The parameters of a \<^verbatim>\<open>GCN\<close>: the weight of \<^verbatim>\<open>nn.Linear(in_ft, out_ft, bias=False)\<close>
  (\<open>out_ft\<close> rows of length \<open>in_ft\<close>), the optional bias vector and the single slope of
  \<^verbatim>\<open>nn.PReLU()\<close>.
\<close>

record GCN =
  in_ft :: nat
  out_ft :: nat
  fc_weight :: mat
  gcn_bias :: "vec option"
  act_weight :: real

text \<open>
  An adjacency argument is a tensor of rank 3 (the dense path, \<^verbatim>\<open>torch.bmm\<close>) or of rank
  2 (the sparse path, \<^verbatim>\<open>torch.spmm\<close>). A sparse tensor is modelled by its entries.
\<close>

datatype adjacency = Batched tensor3 | Single mat

definition matmul :: "mat \<Rightarrow> mat \<Rightarrow> mat" where
  "matmul A X = map (\<lambda>r. map (\<lambda>j. dot r (map (\<lambda>x. x ! j) X)) [0..<dim1 X]) A"

definition fc :: "GCN \<Rightarrow> tensor3 \<Rightarrow> error + tensor3" where
  "fc g seq =
     (if dim2 seq = in_ft g then Inr (map (map (\<lambda>x. map (dot x) (fc_weight g))) seq)
      else Inl ShapeError)"

definition bmm :: "adjacency \<Rightarrow> tensor3 \<Rightarrow> error + tensor3" where
  "bmm adj x =
     (case adj of
        Batched A \<Rightarrow>
          if dim0 A = dim0 x \<and> dim2 A = dim1 x then Inr (map2 matmul A x) else Inl ShapeError
      | Single A \<Rightarrow> Inl ShapeError)"

text \<open>
  \<^verbatim>\<open>torch.unsqueeze(torch.spmm(adj, torch.squeeze(seq_fts, 0)), 0)\<close>: \<^verbatim>\<open>squeeze\<close>
  removes the batch axis only when it has size 1.
\<close>

definition spmm_unsqueezed :: "adjacency \<Rightarrow> tensor3 \<Rightarrow> error + tensor3" where
  "spmm_unsqueezed adj x =
     (case adj of
        Single A \<Rightarrow>
          if dim0 x = 1 \<and> dim1 A = dim1 x then Inr [matmul A (hd x)] else Inl ShapeError
      | Batched A \<Rightarrow> Inl ShapeError)"

definition add_bias :: "tensor3 \<Rightarrow> vec option \<Rightarrow> error + tensor3" where
  "add_bias out b =
     (case b of
        None \<Rightarrow> Inr out
      | Some v \<Rightarrow>
          if length v = dim2 out \<or> length v = 1
          then Inr (map (map (\<lambda>r. bmap2 (+) r v)) out)
          else Inl ShapeError)"

definition prelu :: "real \<Rightarrow> real \<Rightarrow> real" where
  "prelu w x = max 0 x + w * min 0 x"

text \<open>
  \<^verbatim>\<open>
  def forward(self, seq, adj, sparse=False):
      seq_fts = self.fc(seq)
      if sparse:
          out = torch.unsqueeze(torch.spmm(adj, torch.squeeze(seq_fts, 0)), 0)
      else:
          out = torch.bmm(adj, seq_fts)
      if self.bias is not None:
          out += self.bias
      return self.act(out)
  \<close>
\<close>

definition GCN_forward :: "GCN \<Rightarrow> tensor3 \<Rightarrow> adjacency \<Rightarrow> bool \<Rightarrow> error + tensor3" where
  "GCN_forward g seq adj sparse =
     and_then (fc g seq) (\<lambda>seq_fts.
     and_then (if sparse then spmm_unsqueezed adj seq_fts else bmm adj seq_fts) (\<lambda>out.
     and_then (add_bias out (gcn_bias g)) (\<lambda>out.
     Inr (map (map (map (prelu (act_weight g)))) out))))"

section \<open>Discriminator\<close>

text \<open>
  The parameters of \<^verbatim>\<open>nn.Bilinear(n_h, n_h, 1)\<close>: one \<open>n_h \<times> n_h\<close> weight matrix and
  one bias.
\<close>

record Discriminator =
  n_h :: nat
  f_k_weight :: mat
  f_k_bias :: real

definition bilinear :: "Discriminator \<Rightarrow> vec \<Rightarrow> vec \<Rightarrow> real" where
  "bilinear d x1 x2 = dot x1 (map (\<lambda>w. dot w x2) (f_k_weight d)) + f_k_bias d"

text \<open>
  \<^verbatim>\<open>self.f_k(x1, x2)\<close> on two batch \<times> nodes \<times> n_h tensors: all axes but the last must
  agree, the last must be \<open>n_h\<close>; the result has a last axis of size 1.
\<close>

definition f_k :: "Discriminator \<Rightarrow> tensor3 \<Rightarrow> tensor3 \<Rightarrow> error + tensor3" where
  "f_k d x1 x2 =
     (if dim0 x1 = dim0 x2 \<and> dim1 x1 = dim1 x2 \<and> dim2 x1 = n_h d \<and> dim2 x2 = n_h d
      then Inr (map2 (map2 (\<lambda>u v. [bilinear d u v])) x1 x2)
      else Inl ShapeError)"

definition squeeze2 :: "tensor3 \<Rightarrow> mat" where
  "squeeze2 t = map (map hd) t"

definition expand_to :: "nat \<Rightarrow> 'a list \<Rightarrow> 'a list" where
  "expand_to n xs = (if length xs = n then xs else replicate n (hd xs))"

text \<open>
  \<^verbatim>\<open>torch.unsqueeze(c, 1).expand_as(h).contiguous()\<close>: the new axis of size 1 is
  repeated over the nodes of \<open>h\<close>; another axis of \<open>c\<close> may be expanded only from size 1.
\<close>

definition unsqueeze1_expand_as :: "mat \<Rightarrow> tensor3 \<Rightarrow> error + tensor3" where
  "unsqueeze1_expand_as c h =
     (if (dim0 c = dim0 h \<or> dim0 c = 1) \<and> (dim1 c = dim2 h \<or> dim1 c = 1)
      then Inr (map (\<lambda>v. replicate (dim1 h) (expand_to (dim2 h) v)) (expand_to (dim0 h) c))
      else Inl ShapeError)"

text \<open>\<^verbatim>\<open>torch.cat((sc_1, sc_2, sc_3, sc_4), 1)\<close> of four matrices.\<close>

definition cat4_dim1 :: "mat \<Rightarrow> mat \<Rightarrow> mat \<Rightarrow> mat \<Rightarrow> error + mat" where
  "cat4_dim1 s1 s2 s3 s4 =
     (if length s2 = length s1 \<and> length s3 = length s1 \<and> length s4 = length s1
      then Inr (map (\<lambda>i. s1 ! i @ s2 ! i @ s3 ! i @ s4 ! i) [0..<length s1])
      else Inl ShapeError)"

text \<open>
  \<^verbatim>\<open>
  def forward(self, c1, c2, h1, h2, h3, h4, s_bias1=None, s_bias2=None):
      c_x1 = torch.unsqueeze(c1, 1)
      c_x1 = c_x1.expand_as(h1).contiguous()
      c_x2 = torch.unsqueeze(c2, 1)
      c_x2 = c_x2.expand_as(h2).contiguous()
      sc_1 = torch.squeeze(self.f_k(h2, c_x1), 2)
      sc_2 = torch.squeeze(self.f_k(h1, c_x2), 2)
      sc_3 = torch.squeeze(self.f_k(h4, c_x1), 2)
      sc_4 = torch.squeeze(self.f_k(h3, c_x2), 2)
      logits = torch.cat((sc_1, sc_2, sc_3, sc_4), 1)
      return logits
  \<close>
\<close>

definition Discriminator_forward ::
  "Discriminator \<Rightarrow> mat \<Rightarrow> mat \<Rightarrow> tensor3 \<Rightarrow> tensor3 \<Rightarrow> tensor3 \<Rightarrow> tensor3 \<Rightarrow>
   mat option \<Rightarrow> mat option \<Rightarrow> error + mat" where
  "Discriminator_forward d c1 c2 h1 h2 h3 h4 s_bias1 s_bias2 =
     and_then (unsqueeze1_expand_as c1 h1) (\<lambda>c_x1.
     and_then (unsqueeze1_expand_as c2 h2) (\<lambda>c_x2.
     and_then (f_k d h2 c_x1) (\<lambda>r1.
     and_then (f_k d h1 c_x2) (\<lambda>r2.
     and_then (f_k d h4 c_x1) (\<lambda>r3.
     and_then (f_k d h3 c_x2) (\<lambda>r4.
     cat4_dim1 (squeeze2 r1) (squeeze2 r2) (squeeze2 r3) (squeeze2 r4)))))))"

section \<open>Encoder-discriminator model\<close>

record Model =
  gcn1 :: GCN
  gcn2 :: GCN
  disc :: Discriminator

definition sigmoid :: "real \<Rightarrow> real" where
  "sigmoid x = 1 / (1 + exp (- x))"

definition sigm :: "mat \<Rightarrow> mat" where
  "sigm c = map (map sigmoid) c"

text \<open>
  \<^verbatim>\<open>
  def forward(self, seq1, seq2, adj, diff, sparse, msk, samp_bias1, samp_bias2):
      h_1 = self.gcn1(seq1, adj, sparse)
      c_1 = self.read(h_1, msk)
      c_1 = self.sigm(c_1)
      h_2 = self.gcn2(seq1, diff, sparse)
      c_2 = self.read(h_2, msk)
      c_2 = self.sigm(c_2)
      h_3 = self.gcn1(seq2, adj, sparse)
      h_4 = self.gcn2(seq2, diff, sparse)
      ret = self.disc(c_1, c_2, h_1, h_2, h_3, h_4, samp_bias1, samp_bias2)
      return ret, h_1, h_2
  \<close>
\<close>

definition Model_forward ::
  "Model \<Rightarrow> tensor3 \<Rightarrow> tensor3 \<Rightarrow> adjacency \<Rightarrow> adjacency \<Rightarrow> bool \<Rightarrow> mat option \<Rightarrow>
   mat option \<Rightarrow> mat option \<Rightarrow> error + (mat \<times> tensor3 \<times> tensor3)" where
  "Model_forward m seq1 seq2 adj diff sparse msk samp_bias1 samp_bias2 =
     and_then (GCN_forward (gcn1 m) seq1 adj sparse) (\<lambda>h_1.
     and_then (Readout_forward h_1 msk) (\<lambda>c_1.
     and_then (GCN_forward (gcn2 m) seq1 diff sparse) (\<lambda>h_2.
     and_then (Readout_forward h_2 msk) (\<lambda>c_2.
     and_then (GCN_forward (gcn1 m) seq2 adj sparse) (\<lambda>h_3.
     and_then (GCN_forward (gcn2 m) seq2 diff sparse) (\<lambda>h_4.
     and_then (Discriminator_forward (disc m) (sigm c_1) (sigm c_2) h_1 h_2 h_3 h_4
                 samp_bias1 samp_bias2) (\<lambda>ret.
     Inr (ret, h_1, h_2))))))))"

text \<open>
  Gradient tracking is modelled where the source manipulates it: a tensor carries the
  flag \<^verbatim>\<open>requires_grad\<close>, true for a tensor computed from the parameters of a module
  (they are \<^verbatim>\<open>nn.Parameter\<close>s, which require gradients), and \<^verbatim>\<open>detach\<close> returns the
  same values outside the graph.
\<close>

record 'a tracked =
  data :: 'a
  requires_grad :: bool

definition from_parameters :: "'a \<Rightarrow> 'a tracked" where
  "from_parameters v = \<lparr>data = v, requires_grad = True\<rparr>"

definition detach :: "'a tracked \<Rightarrow> 'a tracked" where
  "detach t = t\<lparr>requires_grad := False\<rparr>"

text \<open>
  \<^verbatim>\<open>
  def embed(self, seq, adj, diff, sparse, msk):
      h_1 = self.gcn1(seq, adj, sparse)
      c = self.read(h_1, msk)
      h_2 = self.gcn2(seq, diff, sparse)
      return (h_1 + h_2).detach(), c.detach()
  \<close>
\<close>

definition Model_embed ::
  "Model \<Rightarrow> tensor3 \<Rightarrow> adjacency \<Rightarrow> adjacency \<Rightarrow> bool \<Rightarrow> mat option \<Rightarrow>
   error + (tensor3 tracked \<times> mat tracked)" where
  "Model_embed m seq adj diff sparse msk =
     and_then (GCN_forward (gcn1 m) seq adj sparse) (\<lambda>h_1.
     and_then (Readout_forward h_1 msk) (\<lambda>c.
     and_then (GCN_forward (gcn2 m) seq diff sparse) (\<lambda>h_2.
     and_then (add3 h_1 h_2) (\<lambda>s.
     Inr (detach (from_parameters s), detach (from_parameters c))))))"

text \<open>
  The shapes the constructors give the parameters: \<^verbatim>\<open>GCN(n_in, n_h)\<close> twice and
  \<^verbatim>\<open>Discriminator(n_h)\<close>.
\<close>

definition GCN_ok :: "GCN \<Rightarrow> bool" where
  "GCN_ok g \<longleftrightarrow>
     is_mat (out_ft g) (in_ft g) (fc_weight g) \<and>
     (case gcn_bias g of None \<Rightarrow> True | Some v \<Rightarrow> length v = out_ft g)"

definition Model_ok :: "Model \<Rightarrow> nat \<Rightarrow> nat \<Rightarrow> bool" where
  "Model_ok m n_in nh \<longleftrightarrow>
     GCN_ok (gcn1 m) \<and> in_ft (gcn1 m) = n_in \<and> out_ft (gcn1 m) = nh \<and>
     GCN_ok (gcn2 m) \<and> in_ft (gcn2 m) = n_in \<and> out_ft (gcn2 m) = nh \<and>
     n_h (disc m) = nh"

text \<open>The pooling masks a caller may pass: none, or one weight per node of each batch row.\<close>

definition msk_ok :: "nat \<Rightarrow> nat \<Rightarrow> mat option \<Rightarrow> bool" where
  "msk_ok b n msk \<longleftrightarrow>
     (case msk of None \<Rightarrow> True | Some mk \<Rightarrow> is_mat b n mk \<and> sum_all mk \<noteq> 0)"

text \<open>
  The scores of the node embeddings of one batch row against one summary vector, used
  to state what the discriminator returns.
\<close>

definition node_scores :: "Discriminator \<Rightarrow> mat \<Rightarrow> vec \<Rightarrow> vec" where
  "node_scores d A v = map (\<lambda>u. bilinear d u v) A"

text \<open>
  The adjacency arguments that fit a batch of \<open>b\<close> graphs of \<open>n\<close> nodes: on the dense
  path a \<open>b \<times> n \<times> n\<close> tensor, on the sparse path one \<open>n \<times> n\<close> matrix for a batch of one.
\<close>

definition adj_ok :: "bool \<Rightarrow> nat \<Rightarrow> nat \<Rightarrow> adjacency \<Rightarrow> bool" where
  "adj_ok sparse b n adj \<longleftrightarrow>
     (case adj of
        Batched A \<Rightarrow> \<not> sparse \<and> is_tensor3 b n n A
      | Single A \<Rightarrow> sparse \<and> b = 1 \<and> is_mat n n A)"

section \<open>Attention-based sampler (GraphAttentionLayer)\<close>

text \<open>
  The fields \<^verbatim>\<open>__init__\<close> stores, prefixed with \<open>gat_\<close>, and the flag \<^verbatim>\<open>training\<close> that
  every \<^verbatim>\<open>nn.Module\<close> carries. \<^verbatim>\<open>W\<close> has \<open>in_features\<close> rows of length \<open>out_features\<close>;
  \<^verbatim>\<open>a\<close>, a \<open>(2 * out_features) \<times> 1\<close> matrix, is kept as its one column.
\<close>

record GraphAttentionLayer =
  gat_dropout :: real
  gat_in_features :: nat
  gat_out_features :: nat
  gat_alpha :: real
  gat_concat :: bool
  gat_W :: mat
  gat_a :: vec
  gat_training :: bool

text \<open>\<^verbatim>\<open>torch.mm(input, self.W)\<close>.\<close>

definition mm :: "mat \<Rightarrow> mat \<Rightarrow> error + mat" where
  "mm A B = (if dim1 A = length B then Inr (matmul A B) else Inl ShapeError)"

text \<open>
  \<^verbatim>\<open>x.view(rows, -1)\<close> and \<^verbatim>\<open>x.view(n, -1, f)\<close> on the elements of \<open>x\<close> in row-major
  order: the free axis takes what is left, which must be a whole number, and is ambiguous
  (an error) when the given sizes multiply to 0.
\<close>

definition view2 :: "nat \<Rightarrow> 'a list \<Rightarrow> error + 'a list list" where
  "view2 rows xs =
     (if rows = 0 \<or> length xs mod rows \<noteq> 0 then Inl ShapeError
      else (let c = length xs div rows
            in Inr (map (\<lambda>i. take c (drop (i * c) xs)) [0..<rows])))"

definition view3 :: "nat \<Rightarrow> nat \<Rightarrow> 'a list \<Rightarrow> error + 'a list list list" where
  "view3 n f xs =
     (if n * f = 0 \<or> length xs mod (n * f) \<noteq> 0 then Inl ShapeError
      else (let m = length xs div (n * f)
            in Inr (map (\<lambda>i. map (\<lambda>j. take f (drop ((i * m + j) * f) xs)) [0..<m]) [0..<n])))"

text \<open>\<^verbatim>\<open>h.repeat(1, N)\<close> and \<^verbatim>\<open>h.repeat(N, 1)\<close>.\<close>

definition repeat_cols :: "nat \<Rightarrow> mat \<Rightarrow> mat" where
  "repeat_cols k h = map (\<lambda>r. concat (replicate k r)) h"

definition repeat_rows :: "nat \<Rightarrow> mat \<Rightarrow> mat" where
  "repeat_rows k h = concat (replicate k h)"

text \<open>\<^verbatim>\<open>torch.cat([x, y], dim=1)\<close> of two matrices.\<close>

definition cat_dim1 :: "mat \<Rightarrow> mat \<Rightarrow> error + mat" where
  "cat_dim1 x y = (if length x = length y then Inr (map2 (@) x y) else Inl ShapeError)"

text \<open>\<^verbatim>\<open>torch.matmul(a_input, self.a).squeeze(2)\<close>, with \<^verbatim>\<open>self.a\<close> as its column.\<close>

definition matmul_a :: "tensor3 \<Rightarrow> vec \<Rightarrow> error + mat" where
  "matmul_a t v =
     (if dim2 t = length v then Inr (map (map (\<lambda>u. dot u v)) t) else Inl ShapeError)"

definition leakyrelu :: "real \<Rightarrow> real \<Rightarrow> real" where
  "leakyrelu slope x = max 0 x + slope * min 0 x"

text \<open>
  \<^verbatim>\<open>zero_vec = -9e15 * torch.ones_like(e); torch.where(adj > 0, e, zero_vec)\<close>.
\<close>

definition sentinel :: real where
  "sentinel = - 9000000000000000"

definition where_adj :: "mat \<Rightarrow> mat \<Rightarrow> error + mat" where
  "where_adj adj e =
     (if bc_ok (dim0 adj) (dim0 e) \<and> bc_ok (dim1 adj) (dim1 e)
      then Inr (bmap2 (bmap2 (\<lambda>w x. if 0 < w then x else sentinel)) adj e)
      else Inl ShapeError)"

text \<open>\<^verbatim>\<open>F.softmax(attention, dim=1)\<close> and \<^verbatim>\<open>torch.sum(attention, dim=0)\<close>.\<close>

definition softmax :: "vec \<Rightarrow> vec" where
  "softmax r = map (\<lambda>x. exp x / sum_list (map exp r)) r"

definition sum_dim0 :: "mat \<Rightarrow> vec" where
  "sum_dim0 A = col_sums (dim1 A) A"

text \<open>
  \<^verbatim>\<open>torch.topk(sig_scores, k)\<close>, the indices: those of the \<open>k\<close> largest entries, by
  decreasing value; \<open>k\<close> beyond the length is an error. \<^verbatim>\<open>torch\<close> leaves the order among
  equal values open; here the smaller index comes first.
\<close>

definition topk :: "vec \<Rightarrow> nat \<Rightarrow> error + nat list" where
  "topk x k =
     (if k \<le> length x then Inr (take k (sort_key (\<lambda>i. - x ! i) [0..<length x]))
      else Inl IndexError)"

text \<open>
  \<^verbatim>\<open>
  def forward(self, input, adj, sig_sample_size):
      h = torch.mm(input, self.W)
      N = h.size()[0]
      a_input = torch.cat([h.repeat(1, N).view(N * N, -1), h.repeat(N, 1)], dim=1)
                     .view(N, -1, 2 * self.out_features)
      e = self.leakyrelu(torch.matmul(a_input, self.a).squeeze(2))
      zero_vec = -9e15 * torch.ones_like(e)
      attention = torch.where(adj > 0, e, zero_vec)
      attention = F.softmax(attention, dim=1)
      # attention = F.dropout(attention, self.dropout, training=self.training)
      sig_scores = torch.sum(attention, dim=0)
      sorted, indices = torch.topk(sig_scores, sig_sample_size)
      return indices
  \<close>
  \<open>sig_scores\<close> is the part up to the significance scores.
\<close>

definition sig_scores :: "GraphAttentionLayer \<Rightarrow> mat \<Rightarrow> mat \<Rightarrow> error + vec" where
  "sig_scores l input adj =
     and_then (mm input (gat_W l)) (\<lambda>h.
     and_then (view2 (length h * length h) (concat (repeat_cols (length h) h))) (\<lambda>left.
     and_then (cat_dim1 left (repeat_rows (length h) h)) (\<lambda>pairs.
     and_then (view3 (length h) (2 * gat_out_features l) (concat pairs)) (\<lambda>a_input.
     and_then (matmul_a a_input (gat_a l)) (\<lambda>s.
     and_then (where_adj adj (map (map (leakyrelu (gat_alpha l))) s)) (\<lambda>attention.
     Inr (sum_dim0 (map softmax attention))))))))"

definition GraphAttentionLayer_forward ::
  "GraphAttentionLayer \<Rightarrow> mat \<Rightarrow> mat \<Rightarrow> nat \<Rightarrow> error + nat list" where
  "GraphAttentionLayer_forward l input adj sig_sample_size =
     and_then (sig_scores l input adj) (\<lambda>scores. topk scores sig_sample_size)"

text \<open>The shapes \<^verbatim>\<open>__init__\<close> gives the parameters.\<close>

definition GraphAttentionLayer_ok :: "GraphAttentionLayer \<Rightarrow> bool" where
  "GraphAttentionLayer_ok l \<longleftrightarrow>
     0 < gat_in_features l \<and> 0 < gat_out_features l \<and>
     is_mat (gat_in_features l) (gat_out_features l) (gat_W l) \<and>
     length (gat_a l) = 2 * gat_out_features l"

text \<open>
  The significance scores as the specification describes them, on the projected
  features \<open>h\<close>: the logit of the ordered pair \<open>(i, j)\<close>, masked where there is no edge; the
  attention of \<open>i\<close> to \<open>j\<close>, normalised over the row \<open>i\<close>; the attention that column \<open>j\<close>
  receives from all rows.
\<close>

definition pair_logit :: "GraphAttentionLayer \<Rightarrow> mat \<Rightarrow> mat \<Rightarrow> nat \<Rightarrow> nat \<Rightarrow> real" where
  "pair_logit l h adj i j =
     (if 0 < adj ! i ! j then leakyrelu (gat_alpha l) (dot (h ! i @ h ! j) (gat_a l))
      else sentinel)"

definition pair_attention :: "GraphAttentionLayer \<Rightarrow> mat \<Rightarrow> mat \<Rightarrow> nat \<Rightarrow> nat \<Rightarrow> real" where
  "pair_attention l h adj i j =
     exp (pair_logit l h adj i j) / (\<Sum>k<length h. exp (pair_logit l h adj i k))"

definition significance :: "GraphAttentionLayer \<Rightarrow> mat \<Rightarrow> mat \<Rightarrow> nat \<Rightarrow> real" where
  "significance l h adj j = (\<Sum>i<length h. pair_attention l h adj i j)"

section \<open>Training step: shuffled features and sampled submatrices\<close>

text \<open>
  \<^verbatim>\<open>idx = np.random.permutation(sig_sample_size); shuf_fts = bf[:, idx, :]\<close>.
  The random draw is a parameter: any list that \<^verbatim>\<open>np.random.permutation(n)\<close> may return,
  that is, any arrangement of \<open>0, ..., n - 1\<close>. Indexing an axis with a list of indices
  takes the entries at these indices, in the list's order, and raises when one of them is
  out of range.
\<close>

definition permutation_of :: "nat \<Rightarrow> nat list \<Rightarrow> bool" where
  "permutation_of n idx \<longleftrightarrow> mset idx = mset [0..<n]"

definition index_dim1 :: "tensor3 \<Rightarrow> nat list \<Rightarrow> error + tensor3" where
  "index_dim1 T idx =
     (if list_all (\<lambda>i. i < dim1 T) idx then Inr (map (\<lambda>A. map (\<lambda>i. A ! i) idx) T)
      else Inl IndexError)"

definition shuf_fts :: "tensor3 \<Rightarrow> nat list \<Rightarrow> error + tensor3" where
  "shuf_fts bf idx = index_dim1 bf idx"

text \<open>
  \<^verbatim>\<open>ba[bi, ids, ids]\<close> on the matrix \<^verbatim>\<open>ba[bi]\<close>: two index lists are paired up
  element by element, so the result is the vector of the entries at \<open>(ids[k], ids[k])\<close>.
  \<^verbatim>\<open>bf[bi, ids, :]\<close> takes whole rows.
\<close>

definition index_diag :: "mat \<Rightarrow> nat list \<Rightarrow> error + vec" where
  "index_diag A ids =
     (if list_all (\<lambda>i. i < dim0 A \<and> i < dim1 A) ids then Inr (map (\<lambda>i. A ! i ! i) ids)
      else Inl IndexError)"

definition index_rows :: "mat \<Rightarrow> nat list \<Rightarrow> error + mat" where
  "index_rows A ids =
     (if list_all (\<lambda>i. i < dim0 A) ids then Inr (map (\<lambda>i. A ! i) ids)
      else Inl IndexError)"

text \<open>
  \<^verbatim>\<open>x[bi, :, :] = v\<close> for a slice of \<open>r\<close> rows and \<open>c\<close> columns: the new content of the
  slice. A vector is broadcast to every row; an axis of size 1 is repeated.
\<close>

definition assign_vec :: "nat \<Rightarrow> nat \<Rightarrow> vec \<Rightarrow> error + mat" where
  "assign_vec r c v =
     (if length v = c \<or> length v = 1 then Inr (replicate r (expand_to c v))
      else Inl ShapeError)"

definition assign_mat :: "nat \<Rightarrow> nat \<Rightarrow> mat \<Rightarrow> error + mat" where
  "assign_mat r c M =
     (if (dim0 M = r \<or> dim0 M = 1) \<and> (dim1 M = c \<or> dim1 M = 1)
      then Inr (expand_to r (map (expand_to c) M))
      else Inl ShapeError)"

text \<open>
  The three tensors the loop over the batch fills, allocated with \<^verbatim>\<open>torch.zeros\<close>:
  \<^verbatim>\<open>sampled_ba\<close> and \<^verbatim>\<open>sampled_bd\<close> with slices of \<open>sig_sample_size \<times> sig_sample_size\<close>,
  \<^verbatim>\<open>sampled_bf\<close> with slices of \<open>sig_sample_size \<times> ft_size\<close>.
\<close>

record sampled =
  sampled_ba :: tensor3
  sampled_bd :: tensor3
  sampled_bf :: tensor3

definition zeros3 :: "nat \<Rightarrow> nat \<Rightarrow> nat \<Rightarrow> tensor3" where
  "zeros3 b r c = replicate b (replicate r (replicate c 0))"

text \<open>
  \<^verbatim>\<open>
  ids = attn_layer(bf[bi], bo[bi], sig_sample_size)
  sampled_ba[bi, :, :] = ba[bi, ids, ids]
  sampled_bd[bi, :, :] = bd[bi, ids, ids]
  sampled_bf[bi, :, :] = bf[bi, ids, :]
  \<close>
\<close>

definition sample_step ::
  "GraphAttentionLayer \<Rightarrow> nat \<Rightarrow> nat \<Rightarrow> tensor3 \<Rightarrow> tensor3 \<Rightarrow> tensor3 \<Rightarrow> tensor3 \<Rightarrow>
   nat \<Rightarrow> sampled \<Rightarrow> error + sampled" where
  "sample_step attn_layer sig_sample_size ft_size bo ba bd bf bi s =
     (if bi < length bf \<and> bi < length bo \<and> bi < length ba \<and> bi < length bd \<and>
         bi < length (sampled_ba s) \<and> bi < length (sampled_bd s) \<and> bi < length (sampled_bf s)
      then
        and_then (GraphAttentionLayer_forward attn_layer (bf ! bi) (bo ! bi) sig_sample_size) (\<lambda>ids.
        and_then (index_diag (ba ! bi) ids) (\<lambda>va.
        and_then (assign_vec sig_sample_size sig_sample_size va) (\<lambda>ra.
        and_then (index_diag (bd ! bi) ids) (\<lambda>vd.
        and_then (assign_vec sig_sample_size sig_sample_size vd) (\<lambda>rd.
        and_then (index_rows (bf ! bi) ids) (\<lambda>vf.
        and_then (assign_mat sig_sample_size ft_size vf) (\<lambda>rf.
        Inr (s\<lparr>sampled_ba := (sampled_ba s)[bi := ra],
               sampled_bd := (sampled_bd s)[bi := rd],
               sampled_bf := (sampled_bf s)[bi := rf]\<rparr>))))))))
      else Inl IndexError)"

text \<open>\<^verbatim>\<open>for bi in range(batch_size): ...\<close>, from the tensors of zeros.\<close>

fun sample_loop ::
  "GraphAttentionLayer \<Rightarrow> nat \<Rightarrow> nat \<Rightarrow> tensor3 \<Rightarrow> tensor3 \<Rightarrow> tensor3 \<Rightarrow> tensor3 \<Rightarrow>
   nat list \<Rightarrow> sampled \<Rightarrow> error + sampled" where
  "sample_loop attn_layer k ft bo ba bd bf [] s = Inr s"
| "sample_loop attn_layer k ft bo ba bd bf (bi # bis) s =
     and_then (sample_step attn_layer k ft bo ba bd bf bi s)
       (sample_loop attn_layer k ft bo ba bd bf bis)"

definition sample_batch ::
  "GraphAttentionLayer \<Rightarrow> nat \<Rightarrow> nat \<Rightarrow> nat \<Rightarrow> tensor3 \<Rightarrow> tensor3 \<Rightarrow> tensor3 \<Rightarrow> tensor3 \<Rightarrow>
   error + sampled" where
  "sample_batch attn_layer batch_size sig_sample_size ft_size bo ba bd bf =
     sample_loop attn_layer sig_sample_size ft_size bo ba bd bf [0..<batch_size]
       \<lparr>sampled_ba = zeros3 batch_size sig_sample_size sig_sample_size,
        sampled_bd = zeros3 batch_size sig_sample_size sig_sample_size,
        sampled_bf = zeros3 batch_size sig_sample_size ft_size\<rparr>"

section \<open>Early stopping: proofs\<close>

lemma train_loop_wait:
  "cnt_wait s + k = pat \<Longrightarrow> 0 < k \<Longrightarrow>
   (\<And>i. e \<le> i \<Longrightarrow> i < e + k \<Longrightarrow> i < nb \<Longrightarrow> \<not> loss i < best s) \<Longrightarrow>
   train_loop nb pat loss e s =
     (if e + k \<le> nb then (EarlyStop (e + k - 1), s\<lparr>cnt_wait := pat\<rparr>)
      else (EpochLimit, s\<lparr>cnt_wait := cnt_wait s + (nb - e)\<rparr>))"
proof (induction k arbitrary: e s)
  case 0
  then show ?case by simp
next
  case (Suc k)
  show ?case
  proof (cases "e < nb")
    case False
    then show ?thesis
      by (subst train_loop.simps) simp
  next
    case True
    have noimp: "\<not> loss e < best s"
      using Suc.prems(3) [of e] True by simp
    define s' where "s' = s\<lparr>cnt_wait := cnt_wait s + 1\<rparr>"
    have step: "check_improve (loss e) e s = s'"
      using noimp by (simp add: check_improve_def s'_def)
    show ?thesis
    proof (cases "k = 0")
      case True
      with Suc.prems(1) have "cnt_wait s' = pat" by (simp add: s'_def)
      with \<open>e < nb\<close> step True show ?thesis
        by (subst train_loop.simps) (simp add: s'_def Let_def)
    next
      case False
      have c: "cnt_wait s' + k = pat" using Suc.prems(1) by (simp add: s'_def)
      have ne: "cnt_wait s' \<noteq> pat" using c False by simp
      have b: "best s' = best s" by (simp add: s'_def)
      have ih: "train_loop nb pat loss (Suc e) s' =
        (if Suc e + k \<le> nb then (EarlyStop (Suc e + k - 1), s'\<lparr>cnt_wait := pat\<rparr>)
         else (EpochLimit, s'\<lparr>cnt_wait := cnt_wait s' + (nb - Suc e)\<rparr>))"
      proof (rule Suc.IH [OF c])
        show "0 < k" using False by simp
      next
        fix i assume "Suc e \<le> i" "i < Suc e + k" "i < nb"
        then show "\<not> loss i < best s'"
          using Suc.prems(3) [of i] b by simp
      qed
      have "train_loop nb pat loss e s = train_loop nb pat loss (Suc e) s'"
        using \<open>e < nb\<close> step ne by (subst train_loop.simps) (simp add: Let_def)
      also note ih
      finally show ?thesis
        using \<open>e < nb\<close> by (auto simp: s'_def)
    qed
  qed
qed

lemma train_loop_entering:
  "entering nb pat loss s0 t = Some s \<Longrightarrow>
   train_loop nb pat loss 0 s0 = train_loop nb pat loss t s"
proof (induction t arbitrary: s)
  case 0
  then show ?case by (simp split: if_splits)
next
  case (Suc t)
  from Suc.prems obtain r where r: "entering nb pat loss s0 t = Some r"
    by (auto split: option.splits)
  from Suc.prems r have s: "s = check_improve (loss t) t r"
    and ne: "cnt_wait (check_improve (loss t) t r) \<noteq> pat" and lt: "Suc t < nb"
    by (auto simp: Let_def split: if_splits)
  have "train_loop nb pat loss 0 s0 = train_loop nb pat loss t r"
    by (rule Suc.IH [OF r])
  also have "\<dots> = train_loop nb pat loss (Suc t) s"
    using s ne lt by (subst train_loop.simps) (simp add: Let_def)
  finally show ?case .
qed

lemma entering_less: "entering nb pat loss s0 t = Some s \<Longrightarrow> t < nb"
  by (cases t) (auto simp: Let_def split: if_splits option.splits)

lemma train_loop_improve:
  assumes run: "t < nb" and imp: "loss t < best s"
    and later: "\<And>j. 1 \<le> j \<Longrightarrow> j \<le> pat \<Longrightarrow> t + j < nb \<Longrightarrow> \<not> loss (t + j) < loss t"
  shows "train_loop nb pat loss t s =
     (if t + pat < nb
      then (EarlyStop (t + pat), s\<lparr>best := loss t, best_t := t, cnt_wait := pat\<rparr>)
      else (EpochLimit, s\<lparr>best := loss t, best_t := t, cnt_wait := nb - Suc t\<rparr>))"
proof -
  define s' where "s' = s\<lparr>best := loss t, best_t := t, cnt_wait := 0\<rparr>"
  have step: "check_improve (loss t) t s = s'"
    using imp by (simp add: check_improve_def s'_def)
  show ?thesis
  proof (cases "pat = 0")
    case True
    then show ?thesis
      using run step by (subst train_loop.simps) (simp add: s'_def Let_def)
  next
    case False
    have "train_loop nb pat loss t s = train_loop nb pat loss (Suc t) s'"
      using run step False by (subst train_loop.simps) (simp add: s'_def Let_def)
    also have "\<dots> =
      (if Suc t + pat \<le> nb then (EarlyStop (Suc t + pat - 1), s'\<lparr>cnt_wait := pat\<rparr>)
       else (EpochLimit, s'\<lparr>cnt_wait := cnt_wait s' + (nb - Suc t)\<rparr>))"
    proof (rule train_loop_wait)
      show "cnt_wait s' + pat = pat" by (simp add: s'_def)
      show "0 < pat" using False by simp
    next
      fix i assume i: "Suc t \<le> i" "i < Suc t + pat" "i < nb"
      then have "\<not> loss (t + (i - t)) < loss t"
        by (intro later) auto
      with i show "\<not> loss i < best s'" by (simp add: s'_def)
    qed
    finally show ?thesis
      by (auto simp: s'_def)
  qed
qed

text \<open>
  Claim C6. Suppose the loop enters epoch \<open>t\<close> and the loss of that epoch is strictly
  smaller than the best seen so far, and none of the following \<open>patience\<close> epochs (as many
  of them as the epoch limit leaves) has a loss strictly smaller than that. Then the
  improvement check records \<open>best_t = t\<close>, and the run ends with the \<^verbatim>\<open>break\<close> of epoch
  \<open>t + patience\<close> exactly, unless the epoch limit comes first, in which case the range
  is exhausted without a \<^verbatim>\<open>break\<close>.
\<close>

theorem early_stop_at_best_t_plus_patience:
  assumes "entering nb_epochs patience loss init_state t = Some s"
    and "loss t < best s"
    and "\<forall>j. 1 \<le> j \<and> j \<le> patience \<and> t + j < nb_epochs \<longrightarrow> \<not> loss (t + j) < loss t"
  shows "fst (train_epochs loss) =
           (if t + patience < nb_epochs then EarlyStop (t + patience) else EpochLimit)
         \<and> best_t (snd (train_epochs loss)) = t
         \<and> best (snd (train_epochs loss)) = loss t"
proof -
  have t: "t < nb_epochs" using assms(1) by (rule entering_less)
  have "train_epochs loss = train_loop nb_epochs patience loss t s"
    unfolding train_epochs_def using assms(1) by (rule train_loop_entering)
  also have "\<dots> =
     (if t + patience < nb_epochs
      then (EarlyStop (t + patience), s\<lparr>best := loss t, best_t := t, cnt_wait := patience\<rparr>)
      else (EpochLimit, s\<lparr>best := loss t, best_t := t, cnt_wait := nb_epochs - Suc t\<rparr>))"
    using t assms(2) assms(3) by (intro train_loop_improve) auto
  finally show ?thesis by simp
qed

theorem early_stop_at_best_t_plus_patience_witness:
  "entering nb_epochs patience (\<lambda>n. if n = 0 then 5 else if n = 1 then 3 else if n = 2 then 1 else 4)
     init_state 2 = Some \<lparr>cnt_wait = 0, best = 3, best_t = 1\<rparr>
   \<and> fst (train_epochs (\<lambda>n. if n = 0 then 5 else if n = 1 then 3 else if n = 2 then 1 else 4))
       = EarlyStop 22
   \<and> best_t (snd (train_epochs (\<lambda>n. if n = 0 then 5 else if n = 1 then 3 else if n = 2 then 1 else 4)))
       = 2"
proof -
  let ?loss = "\<lambda>n::nat. if n = 0 then 5 else if n = 1 then 3 else if n = 2 then 1 else (4::real)"
  have e: "entering nb_epochs patience ?loss init_state 2 = Some \<lparr>cnt_wait = 0, best = 3, best_t = 1\<rparr>"
    by (simp add: numeral_2_eq_2 nb_epochs_def patience_def init_state_def check_improve_def)
  have i: "?loss 2 < best \<lparr>cnt_wait = 0, best = 3, best_t = 1\<rparr>"
    by simp
  have l: "\<forall>j. 1 \<le> j \<and> j \<le> patience \<and> 2 + j < nb_epochs \<longrightarrow> \<not> ?loss (2 + j) < ?loss 2"
    by simp
  show ?thesis
    using early_stop_at_best_t_plus_patience [OF e i l] e
    by (simp add: nb_epochs_def patience_def)
qed

section \<open>Shapes of the encoder and readout results\<close>


lemma is_tensor3_dims:
  assumes "is_tensor3 b n f T" "0 < b"
  shows "dim0 T = b" "dim1 T = n" "0 < n \<Longrightarrow> dim2 T = f"
proof -
  from assms obtain A T' where T: "T = A # T'" by (cases T) (auto simp: is_tensor3_def)
  with assms have A: "is_mat n f A" by (simp add: is_tensor3_def)
  show "dim0 T = b" using assms by (simp add: dim0_def is_tensor3_def)
  show "dim1 T = n" using T A by (simp add: dim1_def is_mat_def)
  assume "0 < n"
  with A obtain r A' where "A = r # A'" by (cases A) (auto simp: is_mat_def)
  with A T show "dim2 T = f" by (simp add: dim2_def dim1_def is_mat_def)
qed

lemma is_mat_dims:
  assumes "is_mat n f A"
  shows "dim0 A = n" "0 < n \<Longrightarrow> dim1 A = f"
  using assms by (cases A; simp add: is_mat_def dim1_def dim0_def)+

lemma is_tensor3_nth: "is_tensor3 b n f T \<Longrightarrow> i < b \<Longrightarrow> is_mat n f (T ! i)"
  by (simp add: is_tensor3_def list_all_length)

lemma is_tensor3_map:
  "is_tensor3 b n f T \<Longrightarrow> (\<And>r. length r = f \<Longrightarrow> length (g r) = f') \<Longrightarrow>
   is_tensor3 b n f' (map (map g) T)"
  by (auto simp: is_tensor3_def is_mat_def list_all_iff)

lemma fc_shape:
  assumes "is_tensor3 b n (in_ft g) seq" "0 < b" "0 < n" "length (fc_weight g) = out_ft g"
  shows "\<exists>t. fc g seq = Inr t \<and> is_tensor3 b n (out_ft g) t"
  using assms by (auto simp: fc_def is_tensor3_dims intro!: is_tensor3_map)

lemma is_mat_matmul:
  assumes "is_mat n k A" "is_mat k f X" "0 < k"
  shows "is_mat n f (matmul A X)"
  using assms by (auto simp: matmul_def is_mat_def list_all_iff dim1_def split: list.splits)

lemma bmm_shape:
  assumes "is_tensor3 b n n A" "is_tensor3 b n f x" "0 < b" "0 < n"
  shows "\<exists>t. bmm (Batched A) x = Inr t \<and> is_tensor3 b n f t"
proof -
  have "is_tensor3 b n f (map2 matmul A x)"
    using assms by (auto simp: is_tensor3_def list_all_length intro!: is_mat_matmul)
  then show ?thesis using assms by (simp add: bmm_def is_tensor3_dims)
qed

lemma add_bias_shape:
  assumes "is_tensor3 b n f out" "0 < b" "0 < n"
    and "case bias of None \<Rightarrow> True | Some v \<Rightarrow> length v = f"
  shows "\<exists>t. add_bias out bias = Inr t \<and> is_tensor3 b n f t"
proof (cases bias)
  case None
  with assms show ?thesis by (simp add: add_bias_def)
next
  case (Some v)
  with assms have v: "length v = f" by simp
  have "is_tensor3 b n f (map (map (\<lambda>r. bmap2 (+) r v)) out)"
    using assms(1) by (rule is_tensor3_map) (simp add: bmap2_def v)
  with Some v assms show ?thesis by (simp add: add_bias_def is_tensor3_dims)
qed

lemma is_mat_col_sums: "is_mat b f (map (col_sums f) x)" if "length x = b"
  using that by (simp add: is_mat_def col_sums_def list_all_iff)

lemma mean_dim1_shape:
  assumes "is_tensor3 b n f x" "0 < b" "0 < n"
  shows "\<exists>c. mean_dim1 x = Inr c \<and> is_mat b f c"
proof -
  have ne: "x \<noteq> []" using assms by (auto simp: is_tensor3_def)
  have "is_mat b f (map (col_sums f) x)"
    using assms by (intro is_mat_col_sums) (simp add: is_tensor3_def)
  then have "is_mat b f (map (map (\<lambda>v. v / real n)) (map (col_sums f) x))"
    by (simp add: is_mat_def list_all_iff)
  then show ?thesis
    using assms ne by (simp add: mean_dim1_def sum_dim1_def is_tensor3_dims)
qed

lemma is_tensor3_unsqueeze_last: "is_mat b n mk \<Longrightarrow> is_tensor3 b n 1 (unsqueeze_last mk)"
  by (simp add: is_mat_def is_tensor3_def unsqueeze_last_def list_all_iff)

lemma mul3_mask_shape:
  assumes x: "is_tensor3 b n f x" and y: "is_tensor3 b n 1 y" and pos: "0 < b" "0 < n"
  shows "\<exists>p. mul3 x y = Inr p \<and> is_tensor3 b n f p"
proof -
  have inner: "length (bmap2 (*) r (s::real list)) = f" if "length r = f" "length s = 1" for r s
    using that by (simp add: bmap2_def)
  have mid: "is_mat n f (bmap2 (bmap2 (*)) P Q)" if "is_mat n f P" "is_mat n 1 Q" for P Q
    using that inner unfolding is_mat_def bmap2_def [of "bmap2 (*)"]
    by (auto simp: list_all_length)
  have "is_tensor3 b n f (bmap2 (bmap2 (bmap2 (*))) x y)"
    using x y mid unfolding is_tensor3_def bmap2_def [of "bmap2 (bmap2 (*))"]
    by (auto simp: list_all_length)
  then show ?thesis
    using x y pos by (simp add: mul3_def pointwise3_def is_tensor3_dims bc_ok_def)
qed

lemma Readout_forward_shape:
  assumes x: "is_tensor3 b n f x" and m: "msk_ok b n msk" and pos: "0 < b" "0 < n"
  shows "\<exists>c. Readout_forward x msk = Inr c \<and> is_mat b f c"
proof (cases msk)
  case None
  then show ?thesis using mean_dim1_shape [OF x pos] by (simp add: Readout_forward_def)
next
  case (Some mk)
  with m have mk: "is_mat b n mk" "sum_all mk \<noteq> 0" by (simp_all add: msk_ok_def)
  from mul3_mask_shape [OF x is_tensor3_unsqueeze_last [OF mk(1)] pos] obtain p
    where p: "mul3 x (unsqueeze_last mk) = Inr p" "is_tensor3 b n f p" by blast
  from mean_dim1_shape [OF p(2) pos] obtain q
    where q: "mean_dim1 p = Inr q" "is_mat b f q" by blast
  have "is_mat b f (map (map (\<lambda>v. v / sum_all mk)) q)"
    using q(2) by (simp add: is_mat_def list_all_iff)
  then show ?thesis
    using Some p q mk by (simp add: Readout_forward_def)
qed


lemma unsqueeze1_expand_as_same:
  assumes c: "is_mat b f c" and h: "is_tensor3 b n f h" and pos: "0 < b" "0 < n"
  shows "unsqueeze1_expand_as c h = Inr (map (replicate n) c)"
proof -
  have "map (\<lambda>v. replicate n (expand_to f v)) c = map (replicate n) c"
    using c by (intro map_cong) (auto simp: expand_to_def is_mat_def list_all_iff)
  moreover have "expand_to b c = c"
    using c by (simp add: expand_to_def is_mat_def)
  ultimately show ?thesis
    using is_mat_dims [OF c] is_tensor3_dims [OF h pos(1)] pos
    by (simp add: unsqueeze1_expand_as_def)
qed

lemma is_tensor3_expanded: "is_mat b f c \<Longrightarrow> is_tensor3 b n f (map (replicate n) c)"
  by (auto simp: is_mat_def is_tensor3_def list_all_iff)

lemma map2_replicate: "length A = n \<Longrightarrow> map2 g A (replicate n v) = map (\<lambda>u. g u v) A"
  by (induction A arbitrary: n) auto

lemma squeeze2_f_k:
  assumes h: "is_tensor3 b n (n_h d) h" and c: "is_mat b (n_h d) c" and pos: "0 < b" "0 < n"
  shows "\<exists>r. f_k d h (map (replicate n) c) = Inr r \<and> squeeze2 r = map2 (node_scores d) h c"
proof -
  let ?r = "map2 (map2 (\<lambda>u v. [bilinear d u v])) h (map (replicate n) c)"
  have len: "length h = b" "length c = b"
    using h c by (simp_all add: is_tensor3_def is_mat_def)
  have "f_k d h (map (replicate n) c) = Inr ?r"
    using is_tensor3_dims [OF h pos(1)] is_tensor3_dims [OF is_tensor3_expanded [OF c] pos(1)] pos
    by (simp add: f_k_def)
  moreover have "squeeze2 ?r = map2 (node_scores d) h c"
  proof (rule nth_equalityI)
    show "length (squeeze2 ?r) = length (map2 (node_scores d) h c)"
      by (simp add: squeeze2_def)
  next
    fix i assume "i < length (squeeze2 ?r)"
    then have i: "i < b" using len by (simp add: squeeze2_def)
    have "length (h ! i) = n"
      using is_tensor3_nth [OF h i] by (simp add: is_mat_def)
    then show "squeeze2 ?r ! i = map2 (node_scores d) h c ! i"
      using i len by (simp add: squeeze2_def map2_replicate node_scores_def comp_def)
  qed
  ultimately show ?thesis by blast
qed

lemma length_node_scores: "length (node_scores d A v) = length A"
  by (simp add: node_scores_def)

lemma Discriminator_forward_value:
  assumes "is_mat b (n_h d) c1" and "is_mat b (n_h d) c2"
    and "is_tensor3 b n (n_h d) h1" and "is_tensor3 b n (n_h d) h2"
    and "is_tensor3 b n (n_h d) h3" and "is_tensor3 b n (n_h d) h4"
    and "0 < b" and "0 < n"
  shows "Discriminator_forward d c1 c2 h1 h2 h3 h4 s_bias1 s_bias2 =
     Inr (map (\<lambda>i. node_scores d (h2 ! i) (c1 ! i) @ node_scores d (h1 ! i) (c2 ! i) @
                    node_scores d (h4 ! i) (c1 ! i) @ node_scores d (h3 ! i) (c2 ! i)) [0..<b])"
proof -
  note pos = \<open>0 < b\<close> \<open>0 < n\<close>
  have len: "length c1 = b" "length c2 = b" "length h1 = b" "length h2 = b"
    "length h3 = b" "length h4 = b"
    using assms by (simp_all add: is_tensor3_def is_mat_def)
  from squeeze2_f_k [OF assms(4) assms(1) pos] obtain r1 where r1:
    "f_k d h2 (map (replicate n) c1) = Inr r1" "squeeze2 r1 = map2 (node_scores d) h2 c1" by blast
  from squeeze2_f_k [OF assms(3) assms(2) pos] obtain r2 where r2:
    "f_k d h1 (map (replicate n) c2) = Inr r2" "squeeze2 r2 = map2 (node_scores d) h1 c2" by blast
  from squeeze2_f_k [OF assms(6) assms(1) pos] obtain r3 where r3:
    "f_k d h4 (map (replicate n) c1) = Inr r3" "squeeze2 r3 = map2 (node_scores d) h4 c1" by blast
  from squeeze2_f_k [OF assms(5) assms(2) pos] obtain r4 where r4:
    "f_k d h3 (map (replicate n) c2) = Inr r4" "squeeze2 r4 = map2 (node_scores d) h3 c2" by blast
  let ?row = "\<lambda>i. node_scores d (h2 ! i) (c1 ! i) @ node_scores d (h1 ! i) (c2 ! i) @
                 node_scores d (h4 ! i) (c1 ! i) @ node_scores d (h3 ! i) (c2 ! i)"
  have cat: "cat4_dim1 (squeeze2 r1) (squeeze2 r2) (squeeze2 r3) (squeeze2 r4)
      = Inr (map ?row [0..<b])"
    unfolding r1 r2 r3 r4 cat4_dim1_def using len by simp
  show ?thesis
    unfolding Discriminator_forward_def
    using unsqueeze1_expand_as_same [OF assms(1) assms(3) pos]
      unsqueeze1_expand_as_same [OF assms(2) assms(4) pos] r1(1) r2(1) r3(1) r4(1) cat
    by (simp add: and_then_def)
qed

section \<open>Discriminator: the logits\<close>

text \<open>
  Claim C3. For summaries \<open>c1\<close>, \<open>c2\<close> (batch \<times> features) and node embeddings \<open>h1\<close> to
  \<open>h4\<close> (batch \<times> nodes \<times> features), \<^verbatim>\<open>Discriminator.forward\<close> returns a tensor of shape
  batch \<times> (4 \<times> nodes). Each row is the concatenation, in this order, of the bilinear
  scores of \<open>h2\<close> against \<open>c1\<close>, of \<open>h1\<close> against \<open>c2\<close>, of \<open>h4\<close> against \<open>c1\<close> and of
  \<open>h3\<close> against \<open>c2\<close>: the positive pairs fill the first 2 \<times> nodes columns and the
  negative pairs the last 2 \<times> nodes columns.
\<close>

theorem Discriminator_forward_logits:
  assumes "is_mat b (n_h d) c1" and "is_mat b (n_h d) c2"
    and "is_tensor3 b n (n_h d) h1" and "is_tensor3 b n (n_h d) h2"
    and "is_tensor3 b n (n_h d) h3" and "is_tensor3 b n (n_h d) h4"
    and "0 < b" and "0 < n"
  shows "\<exists>logits. Discriminator_forward d c1 c2 h1 h2 h3 h4 s_bias1 s_bias2 = Inr logits
           \<and> is_mat b (4 * n) logits
           \<and> (\<forall>i<b. logits ! i =
                 node_scores d (h2 ! i) (c1 ! i) @ node_scores d (h1 ! i) (c2 ! i) @
                 node_scores d (h4 ! i) (c1 ! i) @ node_scores d (h3 ! i) (c2 ! i))
           \<and> (\<forall>i<b. take (2 * n) (logits ! i) =
                 node_scores d (h2 ! i) (c1 ! i) @ node_scores d (h1 ! i) (c2 ! i))
           \<and> (\<forall>i<b. drop (2 * n) (logits ! i) =
                 node_scores d (h4 ! i) (c1 ! i) @ node_scores d (h3 ! i) (c2 ! i))"
proof -
  have rows: "length (h1 ! i) = n" "length (h2 ! i) = n" "length (h3 ! i) = n"
    "length (h4 ! i) = n" if "i < b" for i
    using assms(3-6) that by (simp_all add: is_tensor3_def is_mat_def list_all_length)
  let ?row = "\<lambda>i. node_scores d (h2 ! i) (c1 ! i) @ node_scores d (h1 ! i) (c2 ! i) @
                 node_scores d (h4 ! i) (c1 ! i) @ node_scores d (h3 ! i) (c2 ! i)"
  let ?logits = "map ?row [0..<b]"
  have run: "Discriminator_forward d c1 c2 h1 h2 h3 h4 s_bias1 s_bias2 = Inr ?logits"
    using assms by (rule Discriminator_forward_value)
  have shape: "is_mat b (4 * n) ?logits"
    using rows by (simp add: is_mat_def list_all_length length_node_scores)
  have "\<forall>i<b. take (2 * n) (?logits ! i) =
      node_scores d (h2 ! i) (c1 ! i) @ node_scores d (h1 ! i) (c2 ! i)"
    using rows by (simp add: length_node_scores)
  moreover have "\<forall>i<b. drop (2 * n) (?logits ! i) =
      node_scores d (h4 ! i) (c1 ! i) @ node_scores d (h3 ! i) (c2 ! i)"
    using rows by (simp add: length_node_scores)
  ultimately show ?thesis
    using run shape by simp
qed

theorem Discriminator_forward_logits_witness:
  "\<exists>logits.
     Discriminator_forward \<lparr>n_h = 1, f_k_weight = [[2]], f_k_bias = 1\<rparr>
       [[1]] [[3]] [[[1], [5]]] [[[2], [6]]] [[[3], [7]]] [[[4], [8]]] None None = Inr logits
     \<and> logits ! 0 = [5, 13, 7, 31, 9, 17, 19, 43]
     \<and> take (2 * 2) (logits ! 0) = [5, 13, 7, 31]"
proof -
  let ?d = "\<lparr>n_h = 1, f_k_weight = [[2]], f_k_bias = 1\<rparr>"
  have c: "is_mat 1 (n_h ?d) [[1]]" "is_mat 1 (n_h ?d) [[3]]"
    by (simp_all add: is_mat_def)
  have h: "is_tensor3 1 2 (n_h ?d) [[[1], [5]]]" "is_tensor3 1 2 (n_h ?d) [[[2], [6]]]"
    "is_tensor3 1 2 (n_h ?d) [[[3], [7]]]" "is_tensor3 1 2 (n_h ?d) [[[4], [8]]]"
    by (simp_all add: is_tensor3_def is_mat_def)
  have pos: "(0::nat) < 1" "(0::nat) < 2" by simp_all
  from Discriminator_forward_logits [OF c h pos, of None None]
  show ?thesis
    by (auto simp add: node_scores_def bilinear_def dot_def)
qed

section \<open>Model: the forward pass\<close>


lemma spmm_shape:
  assumes "is_mat n n A" "is_tensor3 1 n f x" "0 < n"
  shows "\<exists>t. spmm_unsqueezed (Single A) x = Inr t \<and> is_tensor3 1 n f t"
proof -
  from assms(2) obtain X where x: "x = [X]" and X: "is_mat n f X"
    by (cases x) (auto simp: is_tensor3_def)
  have "is_mat n f (matmul A X)"
    using assms(1) X assms(3) by (rule is_mat_matmul)
  then show ?thesis
    using x X assms is_mat_dims [OF assms(1)]
    by (simp add: spmm_unsqueezed_def is_tensor3_def dim0_def dim1_def is_mat_def split: list.splits)
qed

lemma GCN_forward_ok:
  assumes g: "GCN_ok g" and seq: "is_tensor3 b n (in_ft g) seq"
    and A: "adj_ok sparse b n adj" and pos: "0 < b" "0 < n"
  shows "\<exists>h. GCN_forward g seq adj sparse = Inr h \<and> is_tensor3 b n (out_ft g) h"
proof -
  from g have W: "length (fc_weight g) = out_ft g"
    and bias: "case gcn_bias g of None \<Rightarrow> True | Some v \<Rightarrow> length v = out_ft g"
    by (simp_all add: GCN_ok_def is_mat_def)
  from fc_shape [OF seq pos W] obtain t1
    where t1: "fc g seq = Inr t1" "is_tensor3 b n (out_ft g) t1" by blast
  have "\<exists>t2. (if sparse then spmm_unsqueezed adj t1 else bmm adj t1) = Inr t2
              \<and> is_tensor3 b n (out_ft g) t2"
  proof (cases adj)
    case (Batched M)
    with A have "\<not> sparse" "is_tensor3 b n n M" by (simp_all add: adj_ok_def)
    with bmm_shape [OF this(2) t1(2) pos] Batched show ?thesis by simp
  next
    case (Single M)
    with A have "sparse" "b = 1" "is_mat n n M" by (simp_all add: adj_ok_def)
    with spmm_shape [of n M "out_ft g" t1] t1(2) pos Single show ?thesis by simp
  qed
  then obtain t2 where t2: "(if sparse then spmm_unsqueezed adj t1 else bmm adj t1) = Inr t2"
    "is_tensor3 b n (out_ft g) t2" by blast
  from add_bias_shape [OF t2(2) pos bias] obtain t3
    where t3: "add_bias t2 (gcn_bias g) = Inr t3" "is_tensor3 b n (out_ft g) t3" by blast
  have "is_tensor3 b n (out_ft g) (map (map (map (prelu (act_weight g)))) t3)"
    using t3(2) by (rule is_tensor3_map) simp
  then show ?thesis
    using t1 t2 t3 by (simp add: GCN_forward_def and_then_def)
qed

lemma is_mat_sigm: "is_mat b f c \<Longrightarrow> is_mat b f (sigm c)"
  by (simp add: is_mat_def sigm_def list_all_iff)

text \<open>
  Claim C4. On inputs of the documented shapes \<^verbatim>\<open>Model.forward\<close> returns, and what it
  returns is built as follows: \<open>h_1\<close> is encoder 1 on \<open>(seq1, adj)\<close>, \<open>h_2\<close> is encoder 2
  on \<open>(seq1, diff)\<close>, \<open>h_3\<close> is encoder 1 again on \<open>(seq2, adj)\<close>, \<open>h_4\<close> is encoder 2 on
  \<open>(seq2, diff)\<close>; \<open>c_1\<close> and \<open>c_2\<close> are the sigmoid of the readout of \<open>h_1\<close> and of
  \<open>h_2\<close>; the result is the discriminator's logits on \<open>(c_1, c_2, h_1, h_2, h_3, h_4)\<close>
  together with \<open>h_1\<close> and \<open>h_2\<close>.
\<close>

theorem Model_forward_views:
  assumes m: "Model_ok m n_in nh"
    and s1: "is_tensor3 b n n_in seq1" and s2: "is_tensor3 b n n_in seq2"
    and a: "adj_ok sparse b n adj" and d: "adj_ok sparse b n diff"
    and k: "msk_ok b n msk" and pos: "0 < b" "0 < n"
  shows "\<exists>h_1 h_2 h_3 h_4 c_1 c_2 ret.
           GCN_forward (gcn1 m) seq1 adj sparse = Inr h_1
         \<and> GCN_forward (gcn2 m) seq1 diff sparse = Inr h_2
         \<and> GCN_forward (gcn1 m) seq2 adj sparse = Inr h_3
         \<and> GCN_forward (gcn2 m) seq2 diff sparse = Inr h_4
         \<and> Readout_forward h_1 msk = Inr c_1
         \<and> Readout_forward h_2 msk = Inr c_2
         \<and> Discriminator_forward (disc m) (sigm c_1) (sigm c_2) h_1 h_2 h_3 h_4
              samp_bias1 samp_bias2 = Inr ret
         \<and> Model_forward m seq1 seq2 adj diff sparse msk samp_bias1 samp_bias2
              = Inr (ret, h_1, h_2)"
proof -
  from m have g1: "GCN_ok (gcn1 m)" and g2: "GCN_ok (gcn2 m)"
    and i1: "in_ft (gcn1 m) = n_in" and i2: "in_ft (gcn2 m) = n_in"
    and o1: "out_ft (gcn1 m) = n_h (disc m)" and o2: "out_ft (gcn2 m) = n_h (disc m)"
    by (simp_all add: Model_ok_def)
  from GCN_forward_ok [OF g1 _ a pos, of seq1] s1 i1 o1 obtain h_1 where
    h1: "GCN_forward (gcn1 m) seq1 adj sparse = Inr h_1" "is_tensor3 b n (n_h (disc m)) h_1"
    by auto
  from GCN_forward_ok [OF g2 _ d pos, of seq1] s1 i2 o2 obtain h_2 where
    h2: "GCN_forward (gcn2 m) seq1 diff sparse = Inr h_2" "is_tensor3 b n (n_h (disc m)) h_2"
    by auto
  from GCN_forward_ok [OF g1 _ a pos, of seq2] s2 i1 o1 obtain h_3 where
    h3: "GCN_forward (gcn1 m) seq2 adj sparse = Inr h_3" "is_tensor3 b n (n_h (disc m)) h_3"
    by auto
  from GCN_forward_ok [OF g2 _ d pos, of seq2] s2 i2 o2 obtain h_4 where
    h4: "GCN_forward (gcn2 m) seq2 diff sparse = Inr h_4" "is_tensor3 b n (n_h (disc m)) h_4"
    by auto
  from Readout_forward_shape [OF h1(2) k pos] obtain c_1 where
    c1: "Readout_forward h_1 msk = Inr c_1" "is_mat b (n_h (disc m)) c_1" by blast
  from Readout_forward_shape [OF h2(2) k pos] obtain c_2 where
    c2: "Readout_forward h_2 msk = Inr c_2" "is_mat b (n_h (disc m)) c_2" by blast
  from Discriminator_forward_value [OF is_mat_sigm [OF c1(2)] is_mat_sigm [OF c2(2)]
      h1(2) h2(2) h3(2) h4(2) pos, of samp_bias1 samp_bias2]
  obtain ret where ret: "Discriminator_forward (disc m) (sigm c_1) (sigm c_2) h_1 h_2 h_3 h_4
      samp_bias1 samp_bias2 = Inr ret" by blast
  have "Model_forward m seq1 seq2 adj diff sparse msk samp_bias1 samp_bias2 = Inr (ret, h_1, h_2)"
    using h1(1) h2(1) h3(1) h4(1) c1(1) c2(1) ret by (simp add: Model_forward_def and_then_def)
  with h1(1) h2(1) h3(1) h4(1) c1(1) c2(1) ret show ?thesis by blast
qed

theorem Model_forward_views_witness:
  "\<exists>ret.
     Model_forward
       \<lparr>gcn1 = \<lparr>in_ft = 1, out_ft = 1, fc_weight = [[1]], gcn_bias = Some [0], act_weight = 1 / 4\<rparr>,
        gcn2 = \<lparr>in_ft = 1, out_ft = 1, fc_weight = [[2]], gcn_bias = Some [0], act_weight = 1 / 4\<rparr>,
        disc = \<lparr>n_h = 1, f_k_weight = [[1]], f_k_bias = 0\<rparr>\<rparr>
       [[[1], [2]]] [[[2], [1]]] (Batched [[[1, 0], [0, 1]]]) (Batched [[[1, 1], [1, 1]]])
       False None None None
     = Inr (ret, [[[1], [2]]], [[[6], [6]]])"
proof -
  let ?g1 = "\<lparr>in_ft = 1, out_ft = 1, fc_weight = [[1]], gcn_bias = Some [0], act_weight = 1 / 4\<rparr>"
  let ?g2 = "\<lparr>in_ft = 1, out_ft = 1, fc_weight = [[2]], gcn_bias = Some [0], act_weight = 1 / 4\<rparr>"
  let ?m = "\<lparr>gcn1 = ?g1, gcn2 = ?g2, disc = \<lparr>n_h = 1, f_k_weight = [[1]], f_k_bias = 0\<rparr>\<rparr>"
  have m: "Model_ok ?m 1 1"
    by (simp add: Model_ok_def GCN_ok_def is_mat_def)
  have s: "is_tensor3 1 2 1 [[[1], [2]]]" "is_tensor3 1 2 1 [[[2], [1]]]"
    by (simp_all add: is_tensor3_def is_mat_def)
  have a: "adj_ok False 1 2 (Batched [[[1, 0], [0, 1]]])"
    "adj_ok False 1 2 (Batched [[[1, 1], [1, 1]]])"
    by (simp_all add: adj_ok_def is_tensor3_def is_mat_def)
  have k: "msk_ok 1 2 None" by (simp add: msk_ok_def)
  have pos: "(0::nat) < 1" "(0::nat) < 2" by simp_all
  have e1: "GCN_forward ?g1 [[[1], [2]]] (Batched [[[1, 0], [0, 1]]]) False = Inr [[[1], [2]]]"
    by (simp add: GCN_forward_def and_then_def fc_def bmm_def add_bias_def matmul_def dot_def
        prelu_def dim0_def dim1_def dim2_def bmap2_def)
  have e2: "GCN_forward ?g2 [[[1], [2]]] (Batched [[[1, 1], [1, 1]]]) False = Inr [[[6], [6]]]"
    by (simp add: GCN_forward_def and_then_def fc_def bmm_def add_bias_def matmul_def dot_def
        prelu_def dim0_def dim1_def dim2_def bmap2_def)
  from Model_forward_views [OF m s a k pos, of None None] e1 e2
  show ?thesis by auto
qed

section \<open>Model: embedding extraction\<close>

lemma map2_bmap2:
  "(\<And>x y. (x, y) \<in> set (zip xs ys) \<Longrightarrow> length x = length y) \<Longrightarrow>
   map2 (bmap2 g) xs ys = map2 (map2 g) xs ys"
  by (intro map_cong) (auto simp: bmap2_def)

lemma add3_same_shape:
  assumes x: "is_tensor3 b n f x" and y: "is_tensor3 b n f y" and pos: "0 < b" "0 < n"
  shows "add3 x y = Inr (map2 (map2 (map2 (+))) x y)"
proof -
  have inner: "map2 (bmap2 (+)) P Q = map2 (map2 (+)) P (Q::mat)"
    if "is_mat n f P" "is_mat n f Q" for P Q
  proof (rule map2_bmap2)
    fix u v assume "(u, v) \<in> set (zip P Q)"
    then have "u \<in> set P" "v \<in> set Q"
      by (auto dest: set_zip_leftD set_zip_rightD)
    with that show "length u = length v"
      by (simp add: is_mat_def list_all_iff)
  qed
  have lenPQ: "length P = length Q" if "is_mat n f P" "is_mat n f Q" for P Q :: mat
    using that by (simp add: is_mat_def)
  have mid: "bmap2 (bmap2 (+)) P Q = map2 (map2 (+)) P (Q::mat)"
    if "is_mat n f P" "is_mat n f Q" for P Q
    using inner [OF that] lenPQ [OF that] by (simp add: bmap2_def [of "bmap2 (+)"])
  have "map2 (bmap2 (bmap2 (+))) x y = map2 (map2 (map2 (+))) x y"
  proof (intro map_cong refl)
    fix z assume "z \<in> set (zip x y)"
    moreover obtain P Q where z: "z = (P, Q)" by (cases z)
    ultimately have "P \<in> set x" "Q \<in> set y"
      by (auto dest: set_zip_leftD set_zip_rightD)
    with x y have "is_mat n f P" "is_mat n f Q"
      by (simp_all add: is_tensor3_def list_all_iff)
    then show "(case z of (P, Q) \<Rightarrow> bmap2 (bmap2 (+)) P Q) = (case z of (P, Q) \<Rightarrow> map2 (map2 (+)) P Q)"
      using z by (simp add: mid)
  qed
  moreover have "length x = length y" using x y by (simp add: is_tensor3_def)
  ultimately have "bmap2 (bmap2 (bmap2 (+))) x y = map2 (map2 (map2 (+))) x y"
    by (simp add: bmap2_def [of "bmap2 (bmap2 (+))"])
  then show ?thesis
    using is_tensor3_dims [OF x pos(1)] is_tensor3_dims [OF y pos(1)] pos
    by (simp add: add3_def pointwise3_def bc_ok_def)
qed

text \<open>
  Claim C7. On inputs of the documented shapes \<^verbatim>\<open>Model.embed\<close> returns a pair: the
  element-wise sum of encoder 1 on \<open>(seq, adj)\<close> and encoder 2 on \<open>(seq, diff)\<close>, and the
  readout of encoder 1's output; both are detached, that is, neither requires gradients.
\<close>

theorem Model_embed_sum_and_summary:
  assumes m: "Model_ok m n_in nh"
    and s: "is_tensor3 b n n_in seq"
    and a: "adj_ok sparse b n adj" and d: "adj_ok sparse b n diff"
    and k: "msk_ok b n msk" and pos: "0 < b" "0 < n"
  shows "\<exists>h_1 h_2 c.
           GCN_forward (gcn1 m) seq adj sparse = Inr h_1
         \<and> GCN_forward (gcn2 m) seq diff sparse = Inr h_2
         \<and> Readout_forward h_1 msk = Inr c
         \<and> Model_embed m seq adj diff sparse msk =
             Inr (\<lparr>data = map2 (map2 (map2 (+))) h_1 h_2, requires_grad = False\<rparr>,
                  \<lparr>data = c, requires_grad = False\<rparr>)"
proof -
  from m have g1: "GCN_ok (gcn1 m)" and g2: "GCN_ok (gcn2 m)"
    and i1: "in_ft (gcn1 m) = n_in" and i2: "in_ft (gcn2 m) = n_in"
    and o1: "out_ft (gcn1 m) = nh" and o2: "out_ft (gcn2 m) = nh"
    by (simp_all add: Model_ok_def)
  from GCN_forward_ok [OF g1 _ a pos, of seq] s i1 o1 obtain h_1 where
    h1: "GCN_forward (gcn1 m) seq adj sparse = Inr h_1" "is_tensor3 b n nh h_1"
    by auto
  from GCN_forward_ok [OF g2 _ d pos, of seq] s i2 o2 obtain h_2 where
    h2: "GCN_forward (gcn2 m) seq diff sparse = Inr h_2" "is_tensor3 b n nh h_2"
    by auto
  from Readout_forward_shape [OF h1(2) k pos] obtain c where
    c: "Readout_forward h_1 msk = Inr c" by blast
  have "Model_embed m seq adj diff sparse msk =
      Inr (\<lparr>data = map2 (map2 (map2 (+))) h_1 h_2, requires_grad = False\<rparr>,
           \<lparr>data = c, requires_grad = False\<rparr>)"
    using h1(1) h2(1) c add3_same_shape [OF h1(2) h2(2) pos]
    by (simp add: Model_embed_def and_then_def detach_def from_parameters_def)
  with h1(1) h2(1) c show ?thesis by blast
qed

theorem Model_embed_sum_and_summary_witness:
  "Model_embed
     \<lparr>gcn1 = \<lparr>in_ft = 1, out_ft = 1, fc_weight = [[1]], gcn_bias = Some [0], act_weight = 1 / 4\<rparr>,
      gcn2 = \<lparr>in_ft = 1, out_ft = 1, fc_weight = [[2]], gcn_bias = Some [0], act_weight = 1 / 4\<rparr>,
      disc = \<lparr>n_h = 1, f_k_weight = [[1]], f_k_bias = 0\<rparr>\<rparr>
     [[[1], [2]]] (Batched [[[1, 0], [0, 1]]]) (Batched [[[1, 1], [1, 1]]]) False None
   = Inr (\<lparr>data = [[[7], [8]]], requires_grad = False\<rparr>,
          \<lparr>data = [[3 / 2]], requires_grad = False\<rparr>)"
proof -
  let ?g1 = "\<lparr>in_ft = 1, out_ft = 1, fc_weight = [[1]], gcn_bias = Some [0], act_weight = 1 / 4\<rparr>"
  let ?g2 = "\<lparr>in_ft = 1, out_ft = 1, fc_weight = [[2]], gcn_bias = Some [0], act_weight = 1 / 4\<rparr>"
  let ?m = "\<lparr>gcn1 = ?g1, gcn2 = ?g2, disc = \<lparr>n_h = 1, f_k_weight = [[1]], f_k_bias = 0\<rparr>\<rparr>"
  have m: "Model_ok ?m 1 1"
    by (simp add: Model_ok_def GCN_ok_def is_mat_def)
  have s: "is_tensor3 1 2 1 [[[1], [2]]]"
    by (simp add: is_tensor3_def is_mat_def)
  have a: "adj_ok False 1 2 (Batched [[[1, 0], [0, 1]]])"
    "adj_ok False 1 2 (Batched [[[1, 1], [1, 1]]])"
    by (simp_all add: adj_ok_def is_tensor3_def is_mat_def)
  have k: "msk_ok 1 2 None" by (simp add: msk_ok_def)
  have pos: "(0::nat) < 1" "(0::nat) < 2" by simp_all
  have e1: "GCN_forward ?g1 [[[1], [2]]] (Batched [[[1, 0], [0, 1]]]) False = Inr [[[1], [2]]]"
    by (simp add: GCN_forward_def and_then_def fc_def bmm_def add_bias_def matmul_def dot_def
        prelu_def dim0_def dim1_def dim2_def bmap2_def)
  have e2: "GCN_forward ?g2 [[[1], [2]]] (Batched [[[1, 1], [1, 1]]]) False = Inr [[[6], [6]]]"
    by (simp add: GCN_forward_def and_then_def fc_def bmm_def add_bias_def matmul_def dot_def
        prelu_def dim0_def dim1_def dim2_def bmap2_def)
  have e3: "Readout_forward [[[1], [2]]] None = Inr [[3 / 2]]"
    by (simp add: Readout_forward_def mean_dim1_def sum_dim1_def col_sums_def dim1_def dim2_def)
  from Model_embed_sum_and_summary [OF m s a k pos] e1 e2 e3
  show ?thesis by auto
qed

section \<open>Model: the score-bias arguments\<close>

text \<open>
  Claim C9. Two calls of \<^verbatim>\<open>Model.forward\<close> on the same parameters and the same
  \<open>seq1\<close>, \<open>seq2\<close>, \<open>adj\<close>, \<open>diff\<close>, \<open>sparse\<close> and \<open>msk\<close> return the same result, an error
  included, whatever the two score-bias arguments are, \<open>None\<close> or not.
\<close>

theorem Model_forward_ignores_samp_bias:
  "Model_forward m seq1 seq2 adj diff sparse msk samp_bias1 samp_bias2 =
   Model_forward m seq1 seq2 adj diff sparse msk samp_bias1' samp_bias2'"
  by (simp add: Model_forward_def Discriminator_forward_def)

section \<open>Readout: the masked case\<close>

text \<open>
  Claim C1 says that the masked readout is the masked features summed over the node
  axis and divided by the sum of the whole mask. The source takes \<^verbatim>\<open>torch.mean\<close> over
  the node axis, not \<^verbatim>\<open>torch.sum\<close>, before it divides, so its result is the claimed one
  divided once more by the number of nodes. On one batch row of two nodes with an
  all-ones mask the source returns 3/2, where the claim's formula gives 3, which is also
  what the unmasked branch of the same function returns for these features.
\<close>

theorem Readout_forward_masked_all_ones:
  "Readout_forward [[[2], [4]]] (Some [[1, 1]]) = Inr [[3 / 2]]
   \<and> masked_sum_readout [[[2], [4]]] [[1, 1]] = Inr [[3]]
   \<and> Readout_forward [[[2], [4]]] None = Inr [[3]]"
  by (simp add: Readout_forward_def masked_sum_readout_def mul3_def pointwise3_def
      unsqueeze_last_def bc_ok_def dim0_def dim1_def dim2_def bmap2_def mean_dim1_def
      sum_dim1_def col_sums_def sum_all_def)

text \<open>In general the two differ by the factor that the mean over the node axis adds.\<close>

lemma Readout_forward_masked_scaled:
  assumes "Readout_forward seq (Some mk) = Inr c" and "masked_sum_readout seq mk = Inr c'"
    and "mul3 seq (unsqueeze_last mk) = Inr p"
  shows "c = map (map (\<lambda>v. v / real (dim1 p))) c'"
  using assms
  by (auto simp: Readout_forward_def masked_sum_readout_def mean_dim1_def comp_def sum_dim1_def
      split: if_splits sum.splits)

section \<open>Attention-based sampler: views and top-k\<close>


lemma length_concat_uniform:
  "(\<And>r. r \<in> set rows \<Longrightarrow> length r = f) \<Longrightarrow> length (concat rows) = length rows * f"
  by (induction rows) auto

lemma drop_concat_uniform:
  "(\<And>r. r \<in> set rows \<Longrightarrow> length r = f) \<Longrightarrow>
   drop (i * f) (concat rows) = concat (drop i rows)"
proof (induction rows arbitrary: i)
  case Nil
  then show ?case by simp
next
  case (Cons r rows)
  show ?case
  proof (cases i)
    case 0
    then show ?thesis by simp
  next
    case (Suc k)
    have "length r = f" using Cons.prems by simp
    then have "drop (i * f) (concat (r # rows)) = drop (k * f) (concat rows)"
      using Suc by simp
    also have "\<dots> = concat (drop k rows)"
      using Cons.prems by (intro Cons.IH) simp
    finally show ?thesis using Suc by simp
  qed
qed

lemma chunk_concat_uniform:
  assumes "\<And>r. r \<in> set rows \<Longrightarrow> length r = f" and "i < length rows"
  shows "take f (drop (i * f) (concat rows)) = rows ! i"
proof -
  have "drop i rows = rows ! i # drop (Suc i) rows"
    using assms(2) by (simp add: Cons_nth_drop_Suc)
  moreover have "length (rows ! i) = f"
    using assms by simp
  ultimately show ?thesis
    using drop_concat_uniform [of rows f i] assms(1) by simp
qed

lemma nth_concat_uniform:
  assumes "\<And>r. r \<in> set rows \<Longrightarrow> length r = f" and "i < length rows" and "j < f"
  shows "concat rows ! (i * f + j) = rows ! i ! j"
proof -
  have "i * f + j < length (concat rows)"
  proof -
    have "i * f + j < Suc i * f" using assms(3) by simp
    also have "\<dots> \<le> length rows * f"
      using assms(2) by (intro mult_le_mono1) simp
    finally show ?thesis using length_concat_uniform [of rows f] assms(1) by simp
  qed
  then have "concat rows ! (i * f + j) = drop (i * f) (concat rows) ! j"
    by simp
  also have "\<dots> = take f (drop (i * f) (concat rows)) ! j"
    using assms(3) by simp
  finally show ?thesis
    using chunk_concat_uniform [OF assms(1,2)] by simp
qed

lemma view2_concat:
  assumes "\<And>r. r \<in> set rows \<Longrightarrow> length r = f" and "0 < f" and "rows \<noteq> []"
  shows "view2 (length rows) (concat rows) = Inr rows"
proof -
  have len: "length (concat rows) = length rows * f"
    using assms(1) by (rule length_concat_uniform)
  have "map (\<lambda>i. take f (drop (i * f) (concat rows))) [0..<length rows] = rows"
    by (rule nth_equalityI) (simp_all add: chunk_concat_uniform [OF assms(1)])
  then show ?thesis
    using assms(2,3) len by (simp add: view2_def)
qed

lemma view3_concat:
  assumes "\<And>r. r \<in> set rows \<Longrightarrow> length r = f" and "0 < f" and "0 < n"
    and "length rows = n * m"
  shows "view3 n f (concat rows) =
     Inr (map (\<lambda>i. map (\<lambda>j. rows ! (i * m + j)) [0..<m]) [0..<n])"
proof -
  have len: "length (concat rows) = n * m * f"
    using length_concat_uniform [of rows f] assms(1,4) by simp
  then have d: "length (concat rows) div (n * f) = m"
    using assms(2,3) by (simp add: mult.assoc mult.left_commute [of m])
  have md: "length (concat rows) mod (n * f) = 0"
    using len by (simp add: mult.assoc mult.left_commute [of m])
  have idx: "i * m + j < length rows" if "i < n" "j < m" for i j
  proof -
    have "i * m + j < Suc i * m" using that(2) by simp
    also have "\<dots> \<le> n * m" using that(1) by (intro mult_le_mono1) simp
    finally show ?thesis using assms(4) by simp
  qed
  have "map (\<lambda>i. map (\<lambda>j. take f (drop ((i * m + j) * f) (concat rows))) [0..<m]) [0..<n]
      = map (\<lambda>i. map (\<lambda>j. rows ! (i * m + j)) [0..<m]) [0..<n]"
    using idx by (intro map_cong refl) (simp add: chunk_concat_uniform [OF assms(1)])
  then show ?thesis
    using assms(2,3) d md by (simp add: view3_def)
qed

lemma topk_props:
  assumes "k \<le> length x"
  shows "\<exists>ids. topk x k = Inr ids \<and> length ids = k \<and> distinct ids
           \<and> (\<forall>i \<in> set ids. i < length x)
           \<and> (\<forall>i \<in> set ids. \<forall>j < length x. j \<notin> set ids \<longrightarrow> x ! j \<le> x ! i)"
proof -
  let ?s = "sort_key (\<lambda>i. - x ! i) [0..<length x]"
  let ?ids = "take k ?s"
  have run: "topk x k = Inr ?ids" using assms by (simp add: topk_def)
  have len: "length ?ids = k" using assms by simp
  have dist: "distinct ?ids" by (intro distinct_take) simp
  have rng: "\<forall>i \<in> set ?ids. i < length x"
  proof
    fix i assume "i \<in> set ?ids"
    then have "i \<in> set ?s" by (rule in_set_takeD)
    then show "i < length x" by simp
  qed
  have best: "x ! j \<le> x ! i" if i: "i \<in> set ?ids" and j: "j < length x" "j \<notin> set ?ids" for i j
  proof -
    have "j \<in> set ?s" using j(1) by simp
    moreover have "set ?s = set (take k ?s) \<union> set (drop k ?s)"
      by (metis append_take_drop_id set_append)
    ultimately have jd: "j \<in> set (drop k ?s)" using j(2) by blast
    have "sorted (map (\<lambda>i. - x ! i) (take k ?s @ drop k ?s))"
      by simp
    then have "\<forall>u \<in> set (take k ?s). \<forall>v \<in> set (drop k ?s). - x ! u \<le> - x ! v"
      by (simp only: map_append sorted_append) auto
    with i jd show ?thesis by auto
  qed
  show ?thesis using run len dist rng best by blast
qed

section \<open>Attention-based sampler: the pair matrix\<close>


lemma concat_repeat_cols: "concat (repeat_cols k h) = concat (concat (map (replicate k) h))"
  by (induction h) (simp_all add: repeat_cols_def)

lemma length_concat_map_replicate: "length (concat (map (replicate k) h)) = length h * k"
  by (induction h) simp_all

lemma nth_concat_map_replicate:
  assumes "i < length h" "j < k"
  shows "concat (map (replicate k) h) ! (i * k + j) = h ! i"
proof -
  have "concat (map (replicate k) h) ! (i * k + j) = map (replicate k) h ! i ! j"
    using assms by (intro nth_concat_uniform) auto
  then show ?thesis using assms by simp
qed

lemma nth_repeat_rows:
  assumes "i < k" "j < length h"
  shows "repeat_rows k h ! (i * length h + j) = h ! j"
proof -
  have "concat (replicate k h) ! (i * length h + j) = replicate k h ! i ! j"
    using assms by (intro nth_concat_uniform) auto
  then show ?thesis using assms by (simp add: repeat_rows_def)
qed

lemma length_repeat_rows: "length (repeat_rows k h) = k * length h"
  by (induction k) (simp_all add: repeat_rows_def)

lemma pair_index: "i < n \<Longrightarrow> j < n \<Longrightarrow> i * n + j < n * (n::nat)"
proof -
  assume "i < n" "j < n"
  then have "i * n + j < Suc i * n" by simp
  also have "\<dots> \<le> n * n" using \<open>i < n\<close> by (intro mult_le_mono1) simp
  finally show ?thesis .
qed

lemma a_input_pairs:
  assumes h: "is_mat n f h" and pos: "0 < n" "0 < f"
  shows "\<exists>left pairs.
      view2 (length h * length h) (concat (repeat_cols (length h) h)) = Inr left
    \<and> cat_dim1 left (repeat_rows (length h) h) = Inr pairs
    \<and> view3 (length h) (2 * f) (concat pairs) =
        Inr (map (\<lambda>i. map (\<lambda>j. h ! i @ h ! j) [0..<n]) [0..<n])"
proof -
  have n: "length h = n" and rows: "\<And>r. r \<in> set h \<Longrightarrow> length r = f"
    using h by (simp_all add: is_mat_def list_all_iff)
  let ?left = "concat (map (replicate n) h)"
  have ll: "length ?left = n * n"
    using n by (simp add: length_concat_map_replicate)
  have lrows: "\<And>r. r \<in> set ?left \<Longrightarrow> length r = f"
    using rows by auto
  have "view2 (length ?left) (concat ?left) = Inr ?left"
    using lrows pos(2) by (rule view2_concat) (use ll pos in auto)
  then have v2: "view2 (length h * length h) (concat (repeat_cols (length h) h)) = Inr ?left"
    using ll n by (simp add: concat_repeat_cols)
  let ?pairs = "map2 (@) ?left (repeat_rows n h)"
  have cat: "cat_dim1 ?left (repeat_rows (length h) h) = Inr ?pairs"
    using ll n by (simp add: cat_dim1_def length_repeat_rows)
  have lp: "length ?pairs = n * n"
    using ll n by (simp add: length_repeat_rows)
  have pn: "?pairs ! (i * n + j) = h ! i @ h ! j" if "i < n" "j < n" for i j
    using that pair_index [OF that] ll n nth_concat_map_replicate [of i h j n]
      nth_repeat_rows [of i n j h]
    by (simp add: length_repeat_rows)
  have prow: "\<And>r. r \<in> set ?pairs \<Longrightarrow> length r = 2 * f"
  proof -
    fix r assume "r \<in> set ?pairs"
    then obtain u v where r: "r = u @ v" and z: "(u, v) \<in> set (zip ?left (repeat_rows n h))"
      by auto
    from z have "u \<in> set ?left" by (rule set_zip_leftD)
    moreover from z have "v \<in> set (repeat_rows n h)" by (rule set_zip_rightD)
    ultimately show "length r = 2 * f"
      using rows r by (auto simp: repeat_rows_def)
  qed
  have "view3 n (2 * f) (concat ?pairs)
      = Inr (map (\<lambda>i. map (\<lambda>j. ?pairs ! (i * n + j)) [0..<n]) [0..<n])"
  proof (rule view3_concat [OF prow _ pos(1) lp])
    show "0 < 2 * f" using pos(2) by simp
  qed
  also have "map (\<lambda>i. map (\<lambda>j. ?pairs ! (i * n + j)) [0..<n]) [0..<n]
      = map (\<lambda>i. map (\<lambda>j. h ! i @ h ! j) [0..<n]) [0..<n]"
    using pn by (intro map_cong refl) simp
  finally show ?thesis using v2 cat n by auto
qed

section \<open>Attention-based sampler: the significance scores\<close>


lemma sum_list_map_upt: "sum_list (map f [0..<n]) = (\<Sum>k<n. f k)" for f :: "nat \<Rightarrow> real"
  by (simp add: interv_sum_list_conv_sum_set_nat atLeast0LessThan)

lemma bmap2_same_length: "length xs = length ys \<Longrightarrow> bmap2 f xs ys = map2 f xs ys"
  by (simp add: bmap2_def)

lemma where_adj_same_shape:
  assumes a: "is_mat n n adj" and e: "is_mat n n e" and pos: "0 < n"
  shows "where_adj adj e =
     Inr (map (\<lambda>i. map (\<lambda>j. if 0 < adj ! i ! j then e ! i ! j else sentinel) [0..<n]) [0..<n])"
proof -
  have la: "length adj = n" and le: "length e = n"
    and ra: "\<And>i. i < n \<Longrightarrow> length (adj ! i) = n" and re: "\<And>i. i < n \<Longrightarrow> length (e ! i) = n"
    using a e by (simp_all add: is_mat_def list_all_length)
  let ?g = "\<lambda>w x. if 0 < w then x else sentinel"
  have "bmap2 (bmap2 ?g) adj e = map2 (bmap2 ?g) adj e"
    using la le by (intro bmap2_same_length) simp
  also have "\<dots> = map (\<lambda>i. map (\<lambda>j. ?g (adj ! i ! j) (e ! i ! j)) [0..<n]) [0..<n]"
  proof (rule nth_equalityI)
    show "length (map2 (bmap2 ?g) adj e) = length (map (\<lambda>i. map (\<lambda>j. ?g (adj ! i ! j) (e ! i ! j)) [0..<n]) [0..<n])"
      using la le by simp
  next
    fix i assume "i < length (map2 (bmap2 ?g) adj e)"
    then have i: "i < n" using la le by simp
    have "bmap2 ?g (adj ! i) (e ! i) = map2 ?g (adj ! i) (e ! i)"
      using ra [OF i] re [OF i] by (intro bmap2_same_length) simp
    also have "\<dots> = map (\<lambda>j. ?g (adj ! i ! j) (e ! i ! j)) [0..<n]"
      using ra [OF i] re [OF i] by (intro nth_equalityI) simp_all
    finally show "map2 (bmap2 ?g) adj e ! i
        = map (\<lambda>i. map (\<lambda>j. ?g (adj ! i ! j) (e ! i ! j)) [0..<n]) [0..<n] ! i"
      using i la le by simp
  qed
  finally show ?thesis
    using is_mat_dims [OF a] is_mat_dims [OF e] pos by (simp add: where_adj_def bc_ok_def)
qed

lemma dim1_table: "0 < n \<Longrightarrow> dim1 (map (\<lambda>i. map (g i) [0..<m]) [0..<n]) = m"
  by (cases n) (simp_all add: dim1_def upt_conv_Cons del: upt_Suc)

lemma sum_dim0_table:
  assumes "0 < n"
  shows "sum_dim0 (map (\<lambda>i. map (g i) [0..<m]) [0..<n]) = map (\<lambda>j. \<Sum>i<n. g i j) [0..<m]"
proof -
  have "map (\<lambda>j. sum_list (map (\<lambda>r. r ! j) (map (\<lambda>i. map (g i) [0..<m]) [0..<n]))) [0..<m]
      = map (\<lambda>j. \<Sum>i<n. g i j) [0..<m]"
    by (intro map_cong refl) (simp add: comp_def sum_list_map_upt)
  then show ?thesis
    using dim1_table [OF assms, of g m] by (simp add: sum_dim0_def col_sums_def)
qed

lemma sig_scores_value:
  assumes ok: "GraphAttentionLayer_ok l"
    and inp: "is_mat n (gat_in_features l) input"
    and adj: "is_mat n n adj" and pos: "0 < n"
  shows "sig_scores l input adj =
     Inr (map (significance l (matmul input (gat_W l)) adj) [0..<n])"
proof -
  let ?f = "gat_out_features l"
  let ?h = "matmul input (gat_W l)"
  from ok have fin: "0 < gat_in_features l" and f: "0 < ?f"
    and W: "is_mat (gat_in_features l) ?f (gat_W l)" and a: "length (gat_a l) = 2 * ?f"
    by (simp_all add: GraphAttentionLayer_ok_def)
  have mm: "mm input (gat_W l) = Inr ?h"
    using is_mat_dims [OF inp] is_mat_dims [OF W] pos by (simp add: mm_def dim0_def)
  have h: "is_mat n ?f ?h"
    using inp W fin by (rule is_mat_matmul)
  then have n: "length ?h = n" and hrow: "\<And>i. i < n \<Longrightarrow> length (?h ! i) = ?f"
    by (simp_all add: is_mat_def list_all_length)
  let ?a_input = "map (\<lambda>i. map (\<lambda>j. ?h ! i @ ?h ! j) [0..<n]) [0..<n]"
  from a_input_pairs [OF h pos f] obtain left pairs where
    v2: "view2 (length ?h * length ?h) (concat (repeat_cols (length ?h) ?h)) = Inr left"
    and cat: "cat_dim1 left (repeat_rows (length ?h) ?h) = Inr pairs"
    and v3: "view3 (length ?h) (2 * ?f) (concat pairs) = Inr ?a_input"
    by blast
  have d2: "dim2 ?a_input = 2 * ?f"
  proof -
    have "[0..<n] = 0 # [Suc 0..<n]" using pos by (simp add: upt_conv_Cons)
    then show ?thesis
      using hrow [OF pos] by (simp add: dim2_def dim1_def)
  qed
  let ?s = "map (map (\<lambda>u. dot u (gat_a l))) ?a_input"
  have ma: "matmul_a ?a_input (gat_a l) = Inr ?s"
    using d2 a by (simp add: matmul_a_def)
  let ?e = "map (map (leakyrelu (gat_alpha l))) ?s"
  have e: "is_mat n n ?e"
    by (simp add: is_mat_def list_all_iff)
  have enth: "?e ! i ! j = leakyrelu (gat_alpha l) (dot (?h ! i @ ?h ! j) (gat_a l))"
    if "i < n" "j < n" for i j
    using that by simp
  let ?att = "map (\<lambda>i. map (\<lambda>j. pair_logit l ?h adj i j) [0..<n]) [0..<n]"
  have "where_adj adj ?e =
     Inr (map (\<lambda>i. map (\<lambda>j. if 0 < adj ! i ! j then ?e ! i ! j else sentinel) [0..<n]) [0..<n])"
    using adj e pos by (rule where_adj_same_shape)
  also have "map (\<lambda>i. map (\<lambda>j. if 0 < adj ! i ! j then ?e ! i ! j else sentinel) [0..<n]) [0..<n]
      = ?att"
    by (intro map_cong refl) (simp add: pair_logit_def)
  finally have wh: "where_adj adj ?e = Inr ?att" .
  have sm: "map softmax ?att = map (\<lambda>i. map (\<lambda>j. pair_attention l ?h adj i j) [0..<n]) [0..<n]"
    by (simp add: softmax_def pair_attention_def n comp_def sum_list_map_upt)
  have "sum_dim0 (map softmax ?att) = map (significance l ?h adj) [0..<n]"
    unfolding sm using sum_dim0_table [OF pos, of "pair_attention l ?h adj" n]
    by (simp add: significance_def [abs_def] n)
  then show ?thesis
    using mm v2 cat v3 ma wh
    by (simp add: sig_scores_def and_then_def)
qed

lemma GraphAttentionLayer_forward_topk:
  assumes "GraphAttentionLayer_ok l" and "is_mat n (gat_in_features l) input"
    and "is_mat n n adj" and "0 < n"
  shows "GraphAttentionLayer_forward l input adj k =
     topk (map (significance l (matmul input (gat_W l)) adj) [0..<n]) k"
  using sig_scores_value [OF assms]
  by (simp add: GraphAttentionLayer_forward_def and_then_def)

text \<open>
  Claim C5. For a node feature matrix (\<open>n \<times> in_features\<close>), an adjacency matrix
  (\<open>n \<times> n\<close>) and \<open>1 \<le> K \<le> n\<close>, \<^verbatim>\<open>GraphAttentionLayer.forward\<close> returns exactly \<open>K\<close>
  pairwise distinct node indices, and every returned node has a significance score at
  least as high as every node that is not returned. The significance score of a node is
  the attention it receives, summed over all rows of the row-normalised (softmax)
  attention matrix, whose logits are the leaky-rectified scores of the concatenated
  projected features of each ordered pair, replaced by the sentinel where the adjacency
  is not positive. The claim's condition that every row of the adjacency has a positive
  entry is not needed.
\<close>

theorem GraphAttentionLayer_forward_top_K:
  assumes "GraphAttentionLayer_ok l" and "is_mat n (gat_in_features l) input"
    and "is_mat n n adj" and "1 \<le> K" and "K \<le> n"
  shows "\<exists>ids. GraphAttentionLayer_forward l input adj K = Inr ids
           \<and> length ids = K \<and> distinct ids \<and> (\<forall>i \<in> set ids. i < n)
           \<and> (\<forall>i \<in> set ids. \<forall>j < n. j \<notin> set ids \<longrightarrow>
                 significance l (matmul input (gat_W l)) adj j
                   \<le> significance l (matmul input (gat_W l)) adj i)"
proof -
  let ?x = "map (significance l (matmul input (gat_W l)) adj) [0..<n]"
  have n: "0 < n" using assms(4,5) by simp
  have run: "GraphAttentionLayer_forward l input adj K = topk ?x K"
    using assms(1-3) n by (rule GraphAttentionLayer_forward_topk)
  have "K \<le> length ?x" using assms(5) by simp
  from topk_props [OF this] obtain ids where ids: "topk ?x K = Inr ids" "length ids = K"
    "distinct ids" "\<forall>i \<in> set ids. i < length ?x"
    "\<forall>i \<in> set ids. \<forall>j < length ?x. j \<notin> set ids \<longrightarrow> ?x ! j \<le> ?x ! i"
    by blast
  have "\<forall>i \<in> set ids. \<forall>j < n. j \<notin> set ids \<longrightarrow>
      significance l (matmul input (gat_W l)) adj j
        \<le> significance l (matmul input (gat_W l)) adj i"
  proof (intro ballI allI impI)
    fix i j assume i: "i \<in> set ids" and j: "j < n" "j \<notin> set ids"
    from ids(4) i have "i < n" by simp
    moreover from ids(5) i j have "?x ! j \<le> ?x ! i" by simp
    ultimately show "significance l (matmul input (gat_W l)) adj j
        \<le> significance l (matmul input (gat_W l)) adj i"
      using j(1) by simp
  qed
  with run ids show ?thesis by simp
qed

theorem GraphAttentionLayer_forward_top_K_witness:
  "\<exists>ids. GraphAttentionLayer_forward
       \<lparr>gat_dropout = 3 / 5, gat_in_features = 1, gat_out_features = 1, gat_alpha = 1 / 5,
        gat_concat = True, gat_W = [[1]], gat_a = [1, 1], gat_training = True\<rparr>
       [[1], [1], [1]] [[1, 1, 1], [1, 1, 1], [1, 1, 1]] 2 = Inr ids
     \<and> length ids = 2 \<and> distinct ids \<and> (\<forall>i \<in> set ids. i < 3)"
proof -
  let ?l = "\<lparr>gat_dropout = 3 / 5, gat_in_features = 1, gat_out_features = 1, gat_alpha = 1 / 5,
        gat_concat = True, gat_W = [[1]], gat_a = [1, 1], gat_training = True\<rparr>"
  have ok: "GraphAttentionLayer_ok ?l"
    by (simp add: GraphAttentionLayer_ok_def is_mat_def)
  have inp: "is_mat 3 (gat_in_features ?l) [[1], [1], [1]]"
    by (simp add: is_mat_def)
  have adj: "is_mat 3 3 [[1, 1, 1], [1, 1, 1], [1, 1, 1]]"
    by (simp add: is_mat_def)
  have k: "(1::nat) \<le> 2" "(2::nat) \<le> 3" by simp_all
  from GraphAttentionLayer_forward_top_K [OF ok inp adj k]
  show ?thesis by blast
qed

text \<open>
  Claim C10. \<^verbatim>\<open>GraphAttentionLayer.forward\<close> is a function of \<^verbatim>\<open>W\<close>, \<^verbatim>\<open>a\<close>, the slope and
  its arguments: the dropout rate and the train/eval flag are stored and never read, so
  two layers that differ only in them return the same result on the same input.
\<close>

theorem GraphAttentionLayer_forward_ignores_dropout:
  "GraphAttentionLayer_forward (l\<lparr>gat_dropout := p, gat_training := t\<rparr>) input adj k =
   GraphAttentionLayer_forward l input adj k"
  by (simp add: GraphAttentionLayer_forward_def sig_scores_def)

section \<open>Training step: the shuffled features\<close>

text \<open>
  Claim C8. The shuffled features of an epoch are built from one permutation \<open>idx\<close> of
  \<open>0, ..., sig_sample_size - 1\<close>: row \<open>k\<close> of every batch element of the result is row
  \<open>idx[k]\<close> of the same batch element of \<open>bf\<close>, so each batch element of the result is a
  rearrangement of the first \<open>sig_sample_size\<close> node rows of that element of \<open>bf\<close>, with the
  same \<open>idx\<close> for all of them; the result has the shape
  batch \<times> \<open>sig_sample_size\<close> \<times> features.
\<close>

theorem shuf_fts_shared_permutation:
  assumes bf: "is_tensor3 b n f bf" and idx: "permutation_of sig idx"
    and sig: "sig \<le> n" and pos: "0 < b"
  shows "\<exists>shuf. shuf_fts bf idx = Inr shuf \<and> is_tensor3 b sig f shuf
           \<and> (\<forall>bi<b. \<forall>k<sig. shuf ! bi ! k = bf ! bi ! (idx ! k))
           \<and> (\<forall>bi<b. mset (shuf ! bi) = mset (take sig (bf ! bi)))"
proof -
  have set_idx: "set idx = {0..<sig}"
    using idx by (metis permutation_of_def mset_eq_setD set_upt)
  have len_idx: "length idx = sig"
    using idx by (metis permutation_of_def length_upt mset_eq_length minus_nat.diff_0)
  have inr: "list_all (\<lambda>i. i < dim1 bf) idx"
    using set_idx sig is_tensor3_dims(2) [OF bf pos] by (auto simp: list_all_iff)
  let ?shuf = "map (\<lambda>A. map (\<lambda>i. A ! i) idx) bf"
  have run: "shuf_fts bf idx = Inr ?shuf"
    using inr by (simp add: shuf_fts_def index_dim1_def)
  have lb: "length bf = b" and rows: "\<And>bi. bi < b \<Longrightarrow> is_mat n f (bf ! bi)"
    using bf by (simp_all add: is_tensor3_def list_all_length)
  have shape: "is_tensor3 b sig f ?shuf"
    unfolding is_tensor3_def is_mat_def list_all_length
  proof (intro conjI allI impI)
    show "length ?shuf = b" using lb by simp
  next
    fix bi assume "bi < length ?shuf"
    then show "length (?shuf ! bi) = sig" using len_idx by simp
  next
    fix bi k assume bi: "bi < length ?shuf" and k: "k < length (?shuf ! bi)"
    then have "bi < b" "k < length idx" using lb by simp_all
    then have "idx ! k < n" using set_idx sig nth_mem [of k idx] by auto
    then show "length (?shuf ! bi ! k) = f"
      using rows [OF \<open>bi < b\<close>] \<open>bi < b\<close> \<open>k < length idx\<close> lb
      by (simp add: is_mat_def list_all_length)
  qed
  have nth: "\<forall>bi<b. \<forall>k<sig. ?shuf ! bi ! k = bf ! bi ! (idx ! k)"
    using lb len_idx by simp
  have "mset (?shuf ! bi) = mset (take sig (bf ! bi))" if bi: "bi < b" for bi
  proof -
    have ln: "length (bf ! bi) = n" using rows [OF bi] by (simp add: is_mat_def)
    from idx have e: "mset idx = mset [0..<sig]"
      unfolding permutation_of_def .
    have "mset (map (\<lambda>i. bf ! bi ! i) idx) = image_mset (\<lambda>i. bf ! bi ! i) (mset idx)"
      by (rule mset_map)
    also have "\<dots> = image_mset (\<lambda>i. bf ! bi ! i) (mset [0..<sig])"
      by (simp only: e)
    also have "\<dots> = mset (map (\<lambda>i. bf ! bi ! i) [0..<sig])"
      by (rule mset_map [symmetric])
    also have "map (\<lambda>i. bf ! bi ! i) [0..<sig] = take sig (bf ! bi)"
      using ln sig by (intro nth_equalityI) simp_all
    finally show ?thesis using bi lb by simp
  qed
  with run shape nth show ?thesis by blast
qed

theorem shuf_fts_shared_permutation_witness:
  "\<exists>shuf. shuf_fts [[[1], [2], [3]], [[4], [5], [6]]] [1, 0] = Inr shuf
     \<and> is_tensor3 2 2 1 shuf
     \<and> shuf ! 0 ! 0 = [2] \<and> shuf ! 0 ! 1 = [1] \<and> shuf ! 1 ! 0 = [5] \<and> shuf ! 1 ! 1 = [4]"
proof -
  have bf: "is_tensor3 2 3 1 [[[1], [2], [3]], [[4], [5], [6]]]"
    by (simp add: is_tensor3_def is_mat_def)
  have idx: "permutation_of 2 [1, 0]"
    by (simp add: permutation_of_def numeral_2_eq_2)
  have sig: "(2::nat) \<le> 3" and pos: "(0::nat) < 2" by simp_all
  from shuf_fts_shared_permutation [OF bf idx sig pos] obtain shuf where
    s: "shuf_fts [[[1], [2], [3]], [[4], [5], [6]]] [1, 0] = Inr shuf" "is_tensor3 2 2 1 shuf"
    "\<forall>bi<2. \<forall>k<2. shuf ! bi ! k = [[[1], [2], [3]], [[4], [5], [6]]] ! bi ! ([1, 0] ! k)"
    by blast
  from s(3) have "shuf ! 0 ! 0 = [2]" "shuf ! 0 ! 1 = [1]" "shuf ! 1 ! 0 = [5]" "shuf ! 1 ! 1 = [4]"
    by (simp_all add: numeral_2_eq_2 less_Suc_eq)
  with s(1,2) show ?thesis by blast
qed

section \<open>Training step: the sampled submatrices\<close>


lemma index_diag_ok:
  assumes "is_mat n n A" and "\<forall>i \<in> set ids. i < n" and "0 < n"
  shows "index_diag A ids = Inr (map (\<lambda>i. A ! i ! i) ids)"
  using assms is_mat_dims [OF assms(1)] by (simp add: index_diag_def list_all_iff)

lemma index_rows_ok:
  assumes "is_mat n f A" and "\<forall>i \<in> set ids. i < n"
  shows "index_rows A ids = Inr (map (\<lambda>i. A ! i) ids)"
  using assms is_mat_dims(1) [OF assms(1)] by (simp add: index_rows_def list_all_iff)

lemma assign_vec_ok: "length v = c \<Longrightarrow> assign_vec r c v = Inr (replicate r v)"
  by (simp add: assign_vec_def expand_to_def)

lemma assign_mat_ok:
  assumes "is_mat r c M" and "0 < r"
  shows "assign_mat r c M = Inr M"
proof -
  have "map (expand_to c) M = M"
    using assms(1) by (intro map_idI) (simp add: expand_to_def is_mat_def list_all_iff)
  moreover have "length M = r" using assms(1) by (simp add: is_mat_def)
  ultimately show ?thesis
    using is_mat_dims [OF assms(1)] assms(2) by (simp add: assign_mat_def expand_to_def)
qed

lemma sample_step_value:
  assumes bf: "is_tensor3 b n ft bf" and ba: "is_tensor3 b n n ba" and bd: "is_tensor3 b n n bd"
    and bo: "length bo = b"
    and bi: "bi < b" and k: "0 < k"
    and s: "length (sampled_ba s) = b" "length (sampled_bd s) = b" "length (sampled_bf s) = b"
    and ids: "GraphAttentionLayer_forward l (bf ! bi) (bo ! bi) k = Inr ids"
      "length ids = k" "\<forall>i \<in> set ids. i < n"
  shows "sample_step l k ft bo ba bd bf bi s =
     Inr (s\<lparr>sampled_ba := (sampled_ba s)[bi := replicate k (map (\<lambda>i. ba ! bi ! i ! i) ids)],
            sampled_bd := (sampled_bd s)[bi := replicate k (map (\<lambda>i. bd ! bi ! i ! i) ids)],
            sampled_bf := (sampled_bf s)[bi := map (\<lambda>i. bf ! bi ! i) ids]\<rparr>)"
proof -
  have n: "0 < n"
  proof -
    from ids(2) k obtain i where "i \<in> set ids" by (cases ids) auto
    with ids(3) show ?thesis by fastforce
  qed
  have len: "length bf = b" "length ba = b" "length bd = b"
    using bf ba bd by (simp_all add: is_tensor3_def)
  have A: "is_mat n n (ba ! bi)" and D: "is_mat n n (bd ! bi)" and F: "is_mat n ft (bf ! bi)"
    using bf ba bd bi by (simp_all add: is_tensor3_nth)
  have va: "index_diag (ba ! bi) ids = Inr (map (\<lambda>i. ba ! bi ! i ! i) ids)"
    using A ids(3) n by (rule index_diag_ok)
  have vd: "index_diag (bd ! bi) ids = Inr (map (\<lambda>i. bd ! bi ! i ! i) ids)"
    using D ids(3) n by (rule index_diag_ok)
  have vf: "index_rows (bf ! bi) ids = Inr (map (\<lambda>i. bf ! bi ! i) ids)"
    using F ids(3) by (rule index_rows_ok)
  have "is_mat k ft (map (\<lambda>i. bf ! bi ! i) ids)"
    using F ids(2,3) by (simp add: is_mat_def list_all_iff list_all_length all_set_conv_all_nth)
  then have rf: "assign_mat k ft (map (\<lambda>i. bf ! bi ! i) ids) = Inr (map (\<lambda>i. bf ! bi ! i) ids)"
    using k by (rule assign_mat_ok)
  show ?thesis
    using bi len bo s ids(1,2) va vd vf rf
    by (simp add: sample_step_def and_then_def assign_vec_ok)
qed

lemma sample_loop_value:
  assumes bf: "is_tensor3 b n ft bf" and ba: "is_tensor3 b n n ba" and bd: "is_tensor3 b n n bd"
    and bo: "length bo = b" and k: "0 < k"
    and ids: "\<And>bi. bi < b \<Longrightarrow>
        GraphAttentionLayer_forward l (bf ! bi) (bo ! bi) k = Inr (idsf bi) \<and>
        length (idsf bi) = k \<and> (\<forall>i \<in> set (idsf bi). i < n)"
  shows "\<forall>bi \<in> set bis. bi < b \<Longrightarrow> distinct bis \<Longrightarrow>
     length (sampled_ba s) = b \<Longrightarrow> length (sampled_bd s) = b \<Longrightarrow> length (sampled_bf s) = b \<Longrightarrow>
     \<exists>s'. sample_loop l k ft bo ba bd bf bis s = Inr s'
        \<and> length (sampled_ba s') = b \<and> length (sampled_bd s') = b \<and> length (sampled_bf s') = b
        \<and> (\<forall>bi \<in> set bis.
              sampled_ba s' ! bi = replicate k (map (\<lambda>i. ba ! bi ! i ! i) (idsf bi))
            \<and> sampled_bd s' ! bi = replicate k (map (\<lambda>i. bd ! bi ! i ! i) (idsf bi))
            \<and> sampled_bf s' ! bi = map (\<lambda>i. bf ! bi ! i) (idsf bi))
        \<and> (\<forall>bi. bi \<notin> set bis \<longrightarrow>
              sampled_ba s' ! bi = sampled_ba s ! bi
            \<and> sampled_bd s' ! bi = sampled_bd s ! bi
            \<and> sampled_bf s' ! bi = sampled_bf s ! bi)"
proof (induction bis arbitrary: s)
  case Nil
  then show ?case by simp
next
  case (Cons c bis)
  have c: "c < b" using Cons.prems(1) by simp
  let ?t = "s\<lparr>sampled_ba := (sampled_ba s)[c := replicate k (map (\<lambda>i. ba ! c ! i ! i) (idsf c))],
            sampled_bd := (sampled_bd s)[c := replicate k (map (\<lambda>i. bd ! c ! i ! i) (idsf c))],
            sampled_bf := (sampled_bf s)[c := map (\<lambda>i. bf ! c ! i) (idsf c)]\<rparr>"
  have step: "sample_step l k ft bo ba bd bf c s = Inr ?t"
    using bf ba bd bo c k Cons.prems(3,4,5) ids [OF c]
    by (intro sample_step_value) auto
  have "\<exists>s'. sample_loop l k ft bo ba bd bf bis ?t = Inr s'
        \<and> length (sampled_ba s') = b \<and> length (sampled_bd s') = b \<and> length (sampled_bf s') = b
        \<and> (\<forall>bi \<in> set bis.
              sampled_ba s' ! bi = replicate k (map (\<lambda>i. ba ! bi ! i ! i) (idsf bi))
            \<and> sampled_bd s' ! bi = replicate k (map (\<lambda>i. bd ! bi ! i ! i) (idsf bi))
            \<and> sampled_bf s' ! bi = map (\<lambda>i. bf ! bi ! i) (idsf bi))
        \<and> (\<forall>bi. bi \<notin> set bis \<longrightarrow>
              sampled_ba s' ! bi = sampled_ba ?t ! bi
            \<and> sampled_bd s' ! bi = sampled_bd ?t ! bi
            \<and> sampled_bf s' ! bi = sampled_bf ?t ! bi)"
    using Cons.prems by (intro Cons.IH) simp_all
  then obtain s' where s': "sample_loop l k ft bo ba bd bf bis ?t = Inr s'"
    "length (sampled_ba s') = b" "length (sampled_bd s') = b" "length (sampled_bf s') = b"
    "\<forall>bi \<in> set bis.
        sampled_ba s' ! bi = replicate k (map (\<lambda>i. ba ! bi ! i ! i) (idsf bi))
      \<and> sampled_bd s' ! bi = replicate k (map (\<lambda>i. bd ! bi ! i ! i) (idsf bi))
      \<and> sampled_bf s' ! bi = map (\<lambda>i. bf ! bi ! i) (idsf bi)"
    "\<forall>bi. bi \<notin> set bis \<longrightarrow>
        sampled_ba s' ! bi = sampled_ba ?t ! bi
      \<and> sampled_bd s' ! bi = sampled_bd ?t ! bi
      \<and> sampled_bf s' ! bi = sampled_bf ?t ! bi"
    by blast
  have cn: "c \<notin> set bis" using Cons.prems(2) by simp
  have run: "sample_loop l k ft bo ba bd bf (c # bis) s = Inr s'"
    using step s'(1) by (simp add: and_then_def)
  have atc: "sampled_ba s' ! c = replicate k (map (\<lambda>i. ba ! c ! i ! i) (idsf c))
      \<and> sampled_bd s' ! c = replicate k (map (\<lambda>i. bd ! c ! i ! i) (idsf c))
      \<and> sampled_bf s' ! c = map (\<lambda>i. bf ! c ! i) (idsf c)"
    using s'(6) cn c Cons.prems(3,4,5) by simp
  have other: "\<forall>bi. bi \<notin> set (c # bis) \<longrightarrow>
        sampled_ba s' ! bi = sampled_ba s ! bi
      \<and> sampled_bd s' ! bi = sampled_bd s ! bi
      \<and> sampled_bf s' ! bi = sampled_bf s ! bi"
    using s'(6) by simp
  show ?case
    using run s'(2,3,4,5) atc other by auto
qed


lemma GraphAttentionLayer_forward_ids:
  assumes "GraphAttentionLayer_ok l" and "is_mat n (gat_in_features l) input"
    and "is_mat n n adj" and "1 \<le> k" and "k \<le> n"
  shows "\<exists>ids. GraphAttentionLayer_forward l input adj k = Inr ids
           \<and> length ids = k \<and> (\<forall>i \<in> set ids. i < n)"
proof -
  let ?x = "map (significance l (matmul input (gat_W l)) adj) [0..<n]"
  have n: "0 < n" using assms(4,5) by simp
  have run: "GraphAttentionLayer_forward l input adj k = topk ?x k"
    using assms(1-3) n by (rule GraphAttentionLayer_forward_topk)
  have "k \<le> length ?x" using assms(5) by simp
  from topk_props [OF this] run show ?thesis by auto
qed

text \<open>
  Claim C2. For every batch element \<open>bi\<close>, with \<open>ids\<close> the \<open>K\<close> indices the sampler
  returns on \<open>(bf[bi], bo[bi])\<close>: the gather \<^verbatim>\<open>ba[bi, ids, ids]\<close> is the vector of the
  \<open>K\<close> diagonal entries \<open>ba[bi, ids[k], ids[k]]\<close>, and the assignment broadcasts it, so
  each of the \<open>K\<close> rows of \<^verbatim>\<open>sampled_ba[bi]\<close> is that vector; the same holds for
  \<^verbatim>\<open>sampled_bd[bi]\<close> and \<open>bd\<close>; \<^verbatim>\<open>sampled_bf[bi]\<close> consists of the \<open>K\<close> selected feature
  rows of \<open>bf[bi]\<close>, whole.
\<close>

theorem sampled_submatrices_diagonal_gather:
  assumes ok: "GraphAttentionLayer_ok l" and ft: "gat_in_features l = ft"
    and bf: "is_tensor3 b n ft bf" and bo: "is_tensor3 b n n bo"
    and ba: "is_tensor3 b n n ba" and bd: "is_tensor3 b n n bd"
    and k: "1 \<le> K" "K \<le> n"
  shows "\<exists>s. sample_batch l b K ft bo ba bd bf = Inr s
           \<and> (\<forall>bi<b. \<exists>ids.
                 GraphAttentionLayer_forward l (bf ! bi) (bo ! bi) K = Inr ids
               \<and> length ids = K
               \<and> sampled_ba s ! bi = replicate K (map (\<lambda>i. ba ! bi ! i ! i) ids)
               \<and> sampled_bd s ! bi = replicate K (map (\<lambda>i. bd ! bi ! i ! i) ids)
               \<and> sampled_bf s ! bi = map (\<lambda>i. bf ! bi ! i) ids)"
proof -
  have "\<forall>bi. \<exists>ids. bi < b \<longrightarrow>
      GraphAttentionLayer_forward l (bf ! bi) (bo ! bi) K = Inr ids \<and>
      length ids = K \<and> (\<forall>i \<in> set ids. i < n)"
  proof
    fix bi
    show "\<exists>ids. bi < b \<longrightarrow>
      GraphAttentionLayer_forward l (bf ! bi) (bo ! bi) K = Inr ids \<and>
      length ids = K \<and> (\<forall>i \<in> set ids. i < n)"
    proof (cases "bi < b")
      case True
      have "is_mat n (gat_in_features l) (bf ! bi)" "is_mat n n (bo ! bi)"
        using bf bo True ft by (simp_all add: is_tensor3_nth)
      from GraphAttentionLayer_forward_ids [OF ok this k] show ?thesis by blast
    next
      case False
      then show ?thesis by simp
    qed
  qed
  then obtain idsf where idsf: "\<And>bi. bi < b \<Longrightarrow>
      GraphAttentionLayer_forward l (bf ! bi) (bo ! bi) K = Inr (idsf bi) \<and>
      length (idsf bi) = K \<and> (\<forall>i \<in> set (idsf bi). i < n)"
    by metis
  let ?s0 = "\<lparr>sampled_ba = zeros3 b K K, sampled_bd = zeros3 b K K, sampled_bf = zeros3 b K ft\<rparr>"
  have lo: "length bo = b" using bo by (simp add: is_tensor3_def)
  have kp: "0 < K" using k(1) by simp
  have "\<exists>s'. sample_loop l K ft bo ba bd bf [0..<b] ?s0 = Inr s'
        \<and> length (sampled_ba s') = b \<and> length (sampled_bd s') = b \<and> length (sampled_bf s') = b
        \<and> (\<forall>bi \<in> set [0..<b].
              sampled_ba s' ! bi = replicate K (map (\<lambda>i. ba ! bi ! i ! i) (idsf bi))
            \<and> sampled_bd s' ! bi = replicate K (map (\<lambda>i. bd ! bi ! i ! i) (idsf bi))
            \<and> sampled_bf s' ! bi = map (\<lambda>i. bf ! bi ! i) (idsf bi))
        \<and> (\<forall>bi. bi \<notin> set [0..<b] \<longrightarrow>
              sampled_ba s' ! bi = sampled_ba ?s0 ! bi
            \<and> sampled_bd s' ! bi = sampled_bd ?s0 ! bi
            \<and> sampled_bf s' ! bi = sampled_bf ?s0 ! bi)"
    using bf ba bd lo kp idsf
    by (rule sample_loop_value) (simp_all add: zeros3_def)
  then obtain s' where s': "sample_loop l K ft bo ba bd bf [0..<b] ?s0 = Inr s'"
    "\<forall>bi \<in> set [0..<b].
        sampled_ba s' ! bi = replicate K (map (\<lambda>i. ba ! bi ! i ! i) (idsf bi))
      \<and> sampled_bd s' ! bi = replicate K (map (\<lambda>i. bd ! bi ! i ! i) (idsf bi))
      \<and> sampled_bf s' ! bi = map (\<lambda>i. bf ! bi ! i) (idsf bi)"
    by blast
  have "sample_batch l b K ft bo ba bd bf = Inr s'"
    using s'(1) by (simp add: sample_batch_def)
  moreover have "\<forall>bi<b. \<exists>ids.
        GraphAttentionLayer_forward l (bf ! bi) (bo ! bi) K = Inr ids
      \<and> length ids = K
      \<and> sampled_ba s' ! bi = replicate K (map (\<lambda>i. ba ! bi ! i ! i) ids)
      \<and> sampled_bd s' ! bi = replicate K (map (\<lambda>i. bd ! bi ! i ! i) ids)
      \<and> sampled_bf s' ! bi = map (\<lambda>i. bf ! bi ! i) ids"
  proof (intro allI impI)
    fix bi assume bi: "bi < b"
    show "\<exists>ids.
        GraphAttentionLayer_forward l (bf ! bi) (bo ! bi) K = Inr ids
      \<and> length ids = K
      \<and> sampled_ba s' ! bi = replicate K (map (\<lambda>i. ba ! bi ! i ! i) ids)
      \<and> sampled_bd s' ! bi = replicate K (map (\<lambda>i. bd ! bi ! i ! i) ids)
      \<and> sampled_bf s' ! bi = map (\<lambda>i. bf ! bi ! i) ids"
      using idsf [OF bi] s'(2) bi by (intro exI [of _ "idsf bi"]) simp
  qed
  ultimately show ?thesis by blast
qed

theorem sampled_submatrices_diagonal_gather_witness:
  "\<exists>s ids.
     sample_batch
       \<lparr>gat_dropout = 3 / 5, gat_in_features = 1, gat_out_features = 1, gat_alpha = 1 / 5,
        gat_concat = True, gat_W = [[1]], gat_a = [1, 1], gat_training = True\<rparr>
       1 2 1 [[[1, 1], [1, 1]]] [[[5, 6], [7, 8]]] [[[1, 2], [3, 4]]] [[[1], [2]]] = Inr s
     \<and> length ids = 2
     \<and> sampled_ba s ! 0 = replicate 2 (map (\<lambda>i. [[5, 6], [7, 8]] ! i ! i) ids)
     \<and> sampled_bd s ! 0 = replicate 2 (map (\<lambda>i. [[1, 2], [3, 4]] ! i ! i) ids)
     \<and> sampled_bf s ! 0 = map (\<lambda>i. [[1], [2]] ! i) ids"
proof -
  let ?l = "\<lparr>gat_dropout = 3 / 5, gat_in_features = 1, gat_out_features = 1, gat_alpha = 1 / 5,
        gat_concat = True, gat_W = [[1]], gat_a = [1, 1], gat_training = True\<rparr>"
  have ok: "GraphAttentionLayer_ok ?l"
    by (simp add: GraphAttentionLayer_ok_def is_mat_def)
  have ft: "gat_in_features ?l = 1" by simp
  have bf: "is_tensor3 1 2 1 [[[1], [2]]]"
    by (simp add: is_tensor3_def is_mat_def)
  have sq: "is_tensor3 1 2 2 [[[1, 1], [1, 1]]]" "is_tensor3 1 2 2 [[[5, 6], [7, 8]]]"
    "is_tensor3 1 2 2 [[[1, 2], [3, 4]]]"
    by (simp_all add: is_tensor3_def is_mat_def)
  have k: "(1::nat) \<le> 2" "(2::nat) \<le> 2" by simp_all
  from sampled_submatrices_diagonal_gather [OF ok ft bf sq k]
  show ?thesis by fastforce
qed

end
